theory Spec2Isabelle
  imports Main "HOL-Library.Word" "HOL-Library.Char_ord" "HOL-Library.List_Lexorder"
begin

unbundle bit_operations_syntax

section \<open>Data model of kernel/node.go\<close>

text \<open>
  Go's \<^verbatim>\<open>uint64\<close> is \<^typ>\<open>64 word\<close>: \<open>+\<close>, \<open>-\<close> and \<open>*\<close> wrap around and
  \<open><\<close>, \<open>\<le>\<close> compare unsigned values. An \<^verbatim>\<open>int64\<close> (a \<^verbatim>\<open>time.Duration\<close>, a Unix
  time) is the same 64 bits read with \<open>sint\<close> and compared with \<open><s\<close>; the conversions
  \<^verbatim>\<open>uint64(x)\<close> and \<^verbatim>\<open>int64(x)\<close> keep the bits. Go's \<^verbatim>\<open>int\<close> counts list elements here
  and is modelled as \<^typ>\<open>int\<close>. The fixed-size byte arrays \<^verbatim>\<open>crypto.Hash\<close>, \<^verbatim>\<open>crypto.Key\<close>
  and \<^verbatim>\<open>crypto.Signature\<close> are byte lists (of length 32, 32 and 64 in the program).
\<close>

type_synonym byte = "8 word"
type_synonym u64 = "64 word"
type_synonym i64 = "64 word"
type_synonym Hash = "byte list"
type_synonym Key = "byte list"
type_synonym Signature = "byte list"

record Address =
  PrivateSpendKey :: Key
  PrivateViewKey :: Key
  PublicSpendKey :: Key
  PublicViewKey :: Key

record CNode =
  IdForNetwork :: Hash
  Signer :: Address
  Payee :: Address
  Transaction :: Hash
  Timestamp :: u64
  State :: string
  ConsensusIndex :: int

record NodeStateSequence =
  seq_Timestamp :: u64
  NodesWithoutState :: "CNode list"

text \<open>\<^verbatim>\<open>p2p.SyncPoint\<close>: the fields node.go reads and writes (the pool counters are not read here).\<close>

record SyncPoint =
  NodeId :: Hash
  sp_Hash :: Hash
  Number :: u64

record FinalRound =
  fr_Hash :: Hash
  fr_Number :: u64
  Start :: u64

text \<open>
  \<^verbatim>\<open>ChainState\<close>: the final round and the cache round, a pointer that may be nil. The cache
  round's own type lives in another file of the package; it stays a type parameter \<open>'c\<close>
  and its method \<^verbatim>\<open>asFinal\<close> a parameter of the functions that call it.
\<close>

record 'c ChainState =
  CacheRound :: "'c option"
  FinalRound :: FinalRound

text \<open>The part of \<^verbatim>\<open>config.Custom\<close> that \<^verbatim>\<open>loadNodeConfig\<close> reads.\<close>

record Custom =
  custom_Node_Signer :: Key
  custom_P2P_Relayer :: bool
  custom_LegacyNetwork_Listener :: "byte list"

text \<open>
  \<^verbatim>\<open>Node\<close>, the fields the modelled functions use. A Go map is an association list read
  with \<open>map_of\<close>; a missing key of \<^verbatim>\<open>genesisNodesMap\<close> reads as false, a missing key of
  \<^verbatim>\<open>SyncPointsMap\<close> as nil. \<^verbatim>\<open>node.chain.State\<close> is a pointer that may be nil.
\<close>

record 'c Node =
  node_IdForNetwork :: Hash
  node_Signer :: Address
  isRelayer :: bool
  Listener :: "byte list"
  SyncPointsMap :: "(Hash \<times> SyncPoint) list"
  chain_State :: "'c ChainState option"
  allNodesSortedWithState :: "CNode list"
  nodeStateSequences :: "NodeStateSequence list"
  acceptedNodeStateSequences :: "NodeStateSequence list"
  genesisNodesMap :: "(Hash \<times> bool) list"
  networkId :: Hash
  custom :: Custom

text \<open>
  The constants of package \<^verbatim>\<open>config\<close>, which is not among the sources: they are parameters.
  \<^verbatim>\<open>KernelNodeAcceptPeriodMinimum\<close> is a \<^verbatim>\<open>time.Duration\<close> (an \<^verbatim>\<open>int64\<close> of nanoseconds).
\<close>

record Config =
  SnapshotRoundGap :: u64
  SnapshotReferenceThreshold :: u64
  KernelNodeAcceptPeriodMinimum :: i64
  KernelMinimumNodesCount :: int

text \<open>
  Modelled from the spec: the node states of package \<^verbatim>\<open>common\<close> (Pledging, Accepted,
  Removed, Cancelled, Resigning), which is not among the sources. \<^verbatim>\<open>CNode.State\<close> is a
  string compared with these constants; only their being distinct matters.
\<close>

definition NodeStatePledging :: string where
  "NodeStatePledging = ''PLEDGING''"

definition NodeStateAccepted :: string where
  "NodeStateAccepted = ''ACCEPTED''"

definition NodeStateResigning :: string where
  "NodeStateResigning = ''RESIGNING''"

definition NodeStateRemoved :: string where
  "NodeStateRemoved = ''REMOVED''"

definition NodeStateCancelled :: string where
  "NodeStateCancelled = ''CANCELLED''"

text \<open>\<^verbatim>\<open>time.Minute\<close> and \<^verbatim>\<open>time.Hour\<close> in nanoseconds.\<close>

definition time_Minute :: i64 where
  "time_Minute = 60000000000"

definition time_Hour :: i64 where
  "time_Hour = 3600000000000"

datatype panic = ShouldNeverBeHere

section \<open>The node-state sequence index\<close>

text \<open>
  \<^verbatim>\<open>NodesListWithoutState\<close> scans the sequences from the last one down and returns the list
  of the first whose timestamp is below the threshold, or nil.
\<close>

fun scanSequences :: "NodeStateSequence list \<Rightarrow> u64 \<Rightarrow> nat \<Rightarrow> CNode list" where
  "scanSequences sequences threshold 0 = []"
| "scanSequences sequences threshold (Suc i) =
     (let seq = sequences ! i in
      if seq_Timestamp seq < threshold then NodesWithoutState seq
      else scanSequences sequences threshold i)"

definition NodesListWithoutState :: "'c Node \<Rightarrow> u64 \<Rightarrow> bool \<Rightarrow> CNode list" where
  "NodesListWithoutState node threshold acceptedOnly =
     (let sequences = (if acceptedOnly then acceptedNodeStateSequences node
                       else nodeStateSequences node)
      in scanSequences sequences threshold (length sequences))"

definition isGenesis :: "'c Node \<Rightarrow> Hash \<Rightarrow> bool" where
  "isGenesis node h = (case map_of (genesisNodesMap node) h of Some b \<Rightarrow> b | None \<Rightarrow> False)"

section \<open>Threshold and readiness rules\<close>

definition ConsensusReady :: "'c Node \<Rightarrow> Config \<Rightarrow> CNode \<Rightarrow> u64 \<Rightarrow> bool" where
  "ConsensusReady node cfg cn timestamp =
     (if State cn \<noteq> NodeStateAccepted then False
      else if isGenesis node (IdForNetwork cn) then True
      else if Timestamp cn + KernelNodeAcceptPeriodMinimum cfg < timestamp then True
      else False)"

text \<open>
  The loop of \<^verbatim>\<open>ConsensusThreshold\<close> over the node list, with the running
  \<^verbatim>\<open>consensusBase\<close>. Both panics sit inside the loop body, as in the source: the first is
  reached for every node, the second only for a Pledging node. The base is never negative,
  so Go's truncating \<^verbatim>\<open>consensusBase*2/3\<close> is \<open>div\<close>.
\<close>

fun consensusBaseLoop ::
  "'c Node \<Rightarrow> Config \<Rightarrow> u64 \<Rightarrow> bool \<Rightarrow> CNode list \<Rightarrow> int \<Rightarrow> panic + int" where
  "consensusBaseLoop node cfg timestamp final [] consensusBase = Inr consensusBase"
| "consensusBaseLoop node cfg timestamp final (cn # cns) consensusBase =
     (let threshold = SnapshotReferenceThreshold cfg * SnapshotRoundGap cfg in
      if threshold > 3 * time_Minute then Inl ShouldNeverBeHere
      else if State cn = NodeStatePledging then
        (if KernelNodeAcceptPeriodMinimum cfg <s time_Hour then Inl ShouldNeverBeHere
         else
           (let t = KernelNodeAcceptPeriodMinimum cfg - threshold * 3 in
            if \<not> final \<and> Timestamp cn + t < timestamp
            then consensusBaseLoop node cfg timestamp final cns (consensusBase + 1)
            else consensusBaseLoop node cfg timestamp final cns consensusBase))
      else if State cn = NodeStateAccepted then
        (if isGenesis node (IdForNetwork cn) \<or> Timestamp cn + threshold < timestamp
         then consensusBaseLoop node cfg timestamp final cns (consensusBase + 1)
         else consensusBaseLoop node cfg timestamp final cns consensusBase)
      else consensusBaseLoop node cfg timestamp final cns consensusBase)"

definition ConsensusThreshold :: "'c Node \<Rightarrow> Config \<Rightarrow> u64 \<Rightarrow> bool \<Rightarrow> panic + int" where
  "ConsensusThreshold node cfg timestamp final =
     (case consensusBaseLoop node cfg timestamp final
             (NodesListWithoutState node timestamp False) 0 of
        Inl e \<Rightarrow> Inl e
      | Inr consensusBase \<Rightarrow>
          if consensusBase < KernelMinimumNodesCount cfg then Inr 1000
          else Inr (consensusBase * 2 div 3 + 1))"

section \<open>Building a node sequence\<close>

text \<open>
  Modelled from the spec: \<^verbatim>\<open>crypto.Hash.String\<close> is not among the sources; the spec calls its
  result the hex-encoded id string. Go compares strings byte by byte, which is the
  lexicographic order of \<^typ>\<open>string\<close> here.
\<close>

definition hexdigit :: "nat \<Rightarrow> char" where
  "hexdigit n = ''0123456789abcdef'' ! n"

definition Hash_String :: "Hash \<Rightarrow> string" where
  "Hash_String h = concat (map (\<lambda>b. [hexdigit (unat b div 16), hexdigit (unat b mod 16)]) h)"

text \<open>The \<^verbatim>\<open>less\<close> closure that \<^verbatim>\<open>nodeSequenceWithoutState\<close> hands to \<^verbatim>\<open>sort.Slice\<close>.\<close>

definition less_CNode :: "CNode \<Rightarrow> CNode \<Rightarrow> bool" where
  "less_CNode a b =
     (if Timestamp a < Timestamp b then True
      else if Timestamp a > Timestamp b then False
      else Hash_String (IdForNetwork a) < Hash_String (IdForNetwork b))"

text \<open>
  \<^verbatim>\<open>sort.Slice\<close> is Go's library sort: it orders the slice by the given \<^verbatim>\<open>less\<close> and is
  not stable. It is modelled as an insertion sort. The lists sorted here come out of a map
  keyed by id, so no two of their elements are equivalent under \<^verbatim>\<open>less\<close> and there is
  only one sorted list of them (\<open>strictly_sorted_unique\<close> below).
\<close>

fun insert_by :: "('a \<Rightarrow> 'a \<Rightarrow> bool) \<Rightarrow> 'a \<Rightarrow> 'a list \<Rightarrow> 'a list" where
  "insert_by lt x [] = [x]"
| "insert_by lt x (y # ys) = (if lt x y then x # y # ys else y # insert_by lt x ys)"

fun sort_Slice :: "'a list \<Rightarrow> ('a \<Rightarrow> 'a \<Rightarrow> bool) \<Rightarrow> 'a list" where
  "sort_Slice [] lt = []"
| "sort_Slice (x # xs) lt = insert_by lt x (sort_Slice xs lt)"

text \<open>\<^verbatim>\<open>filter[k] = n\<close> on the map \<^verbatim>\<open>filter\<close>, kept as an association list.\<close>

fun map_store :: "'k \<Rightarrow> 'v \<Rightarrow> ('k \<times> 'v) list \<Rightarrow> ('k \<times> 'v) list" where
  "map_store k v [] = [(k, v)]"
| "map_store k v (p # ps) = (if fst p = k then (k, v) # ps else p # map_store k v ps)"

text \<open>The first loop: the registry entries below the threshold, the last entry of each id
  winning; the loop breaks at the first entry at or above the threshold.\<close>

fun filterLoop :: "CNode list \<Rightarrow> u64 \<Rightarrow> (Hash \<times> CNode) list \<Rightarrow> (Hash \<times> CNode) list" where
  "filterLoop [] threshold filter_map = filter_map"
| "filterLoop (n # ns) threshold filter_map =
     (if Timestamp n \<ge> threshold then filter_map
      else filterLoop ns threshold (map_store (IdForNetwork n) n filter_map))"

text \<open>The copy made of each kept node: \<^verbatim>\<open>ConsensusIndex\<close> starts at Go's zero value.\<close>

definition copyCNode :: "CNode \<Rightarrow> CNode" where
  "copyCNode n =
     \<lparr>IdForNetwork = IdForNetwork n, Signer = Signer n, Payee = Payee n,
      Transaction = Transaction n, Timestamp = Timestamp n, State = State n,
      ConsensusIndex = 0\<rparr>"

fun collectNodes :: "bool \<Rightarrow> CNode list \<Rightarrow> CNode list" where
  "collectNodes acceptedOnly [] = []"
| "collectNodes acceptedOnly (n # ns) =
     (if \<not> acceptedOnly \<or> State n = NodeStateAccepted
      then copyCNode n # collectNodes acceptedOnly ns
      else collectNodes acceptedOnly ns)"

text \<open>The last loop: every node receives the running index; only an Accepted or Pledging
  node advances it.\<close>

fun assignConsensusIndex :: "int \<Rightarrow> CNode list \<Rightarrow> CNode list" where
  "assignConsensusIndex index [] = []"
| "assignConsensusIndex index (cn # cns) =
     cn\<lparr>ConsensusIndex := index\<rparr>
     # assignConsensusIndex
         (if State cn = NodeStateAccepted \<or> State cn = NodeStatePledging then index + 1
          else index) cns"

text \<open>
  Go ranges over the map \<^verbatim>\<open>filter\<close> in an unspecified order; the model ranges over the
  association list in the order of first insertion. The sort that follows makes the result
  the same for every order (\<open>nodeSequenceWithoutState_any_order\<close> below).
\<close>

definition nodeSequenceWithoutState :: "'c Node \<Rightarrow> u64 \<Rightarrow> bool \<Rightarrow> CNode list" where
  "nodeSequenceWithoutState node threshold acceptedOnly =
     (let filter_map = filterLoop (allNodesSortedWithState node) threshold [];
          nodes = collectNodes acceptedOnly (map snd filter_map);
          sorted = sort_Slice nodes less_CNode
      in assignConsensusIndex 0 sorted)"

definition buildNodeStateSequences ::
  "'c Node \<Rightarrow> CNode list \<Rightarrow> bool \<Rightarrow> NodeStateSequence list" where
  "buildNodeStateSequences node allNodes acceptedOnly =
     map (\<lambda>n. \<lparr>seq_Timestamp = Timestamp n,
               NodesWithoutState = nodeSequenceWithoutState node (Timestamp n + 1) acceptedOnly\<rparr>)
         allNodes"

section \<open>Catch-up and broadcast detection\<close>

text \<open>
  The wall clock is read several times within one call. The functions below take the
  readings as a function \<open>clk\<close>: \<open>clk k\<close> is the value of the \<open>k\<close>-th call of
  \<^verbatim>\<open>uint64(clock.Now().UnixNano())\<close> that the call makes, counted from 0.
\<close>

fun broadcastLoop :: "(Hash \<times> SyncPoint) list \<Rightarrow> u64 \<Rightarrow> CNode list \<Rightarrow> int \<Rightarrow> int" where
  "broadcastLoop spm final [] count = count"
| "broadcastLoop spm final (cn # cns) count =
     (case map_of spm (IdForNetwork cn) of
        None \<Rightarrow> broadcastLoop spm final cns count
      | Some remote \<Rightarrow>
          if Number remote + 1 \<ge> final then broadcastLoop spm final cns (count + 1)
          else broadcastLoop spm final cns count)"

definition CheckBroadcastedToP2PPeers :: "'c Node \<Rightarrow> Config \<Rightarrow> (nat \<Rightarrow> u64) \<Rightarrow> panic + bool" where
  "CheckBroadcastedToP2PPeers node cfg clk =
     (let spm = SyncPointsMap node in
      case chain_State node of
        None \<Rightarrow> Inr False
      | Some state \<Rightarrow>
          if length spm = 0 then Inr False
          else
            (case ConsensusThreshold node cfg (clk 0) False of
               Inl e \<Rightarrow> Inl e
             | Inr threshold \<Rightarrow>
                 Inr (broadcastLoop spm (fr_Number (FinalRound state))
                        (NodesListWithoutState node (clk 1) True) 1 \<ge> threshold)))"

text \<open>
  The loop of \<^verbatim>\<open>CheckCatchUpWithP2PPeers\<close>: \<open>None\<close> is an early \<^verbatim>\<open>return false\<close>,
  \<open>Some updated\<close> the counter after a completed walk. \<open>k\<close> is the index of the next clock
  reading; the clock is read only when a remote one round ahead has passed the hash check.
\<close>

fun catchUpLoop ::
  "('c \<Rightarrow> FinalRound option) \<Rightarrow> Config \<Rightarrow> (nat \<Rightarrow> u64) \<Rightarrow> (Hash \<times> SyncPoint) list \<Rightarrow>
   'c option \<Rightarrow> u64 \<Rightarrow> CNode list \<Rightarrow> int \<Rightarrow> nat \<Rightarrow> int option" where
  "catchUpLoop asFinal cfg clk spm cache final [] updated k = Some updated"
| "catchUpLoop asFinal cfg clk spm cache final (cn # cns) updated k =
     (case map_of spm (IdForNetwork cn) of
        None \<Rightarrow> catchUpLoop asFinal cfg clk spm cache final cns updated k
      | Some remote \<Rightarrow>
          if Number remote \<le> final
          then catchUpLoop asFinal cfg clk spm cache final cns (updated + 1) k
          else if Number remote > final + 1 then None
          else
            (case cache of
               None \<Rightarrow> None
             | Some c \<Rightarrow>
                 (case asFinal c of
                    None \<Rightarrow> None
                  | Some cf \<Rightarrow>
                      if fr_Hash cf \<noteq> sp_Hash remote then None
                      else if Start cf + SnapshotRoundGap cfg * 100 > clk k then None
                      else catchUpLoop asFinal cfg clk spm cache final cns (updated + 1) (Suc k))))"

definition CheckCatchUpWithP2PPeers ::
  "('c \<Rightarrow> FinalRound option) \<Rightarrow> 'c Node \<Rightarrow> Config \<Rightarrow> (nat \<Rightarrow> u64) \<Rightarrow> panic + bool" where
  "CheckCatchUpWithP2PPeers asFinal node cfg clk =
     (let spm = SyncPointsMap node in
      case chain_State node of
        None \<Rightarrow> Inr False
      | Some state \<Rightarrow>
          if length spm = 0 then Inr False
          else
            (case ConsensusThreshold node cfg (clk 0) False of
               Inl e \<Rightarrow> Inl e
             | Inr threshold \<Rightarrow>
                 (case catchUpLoop asFinal cfg clk spm (CacheRound state)
                         (fr_Number (FinalRound state))
                         (NodesListWithoutState node (clk 1) True) 1 2 of
                    None \<Rightarrow> Inr False
                  | Some updated \<Rightarrow> Inr (updated \<ge> threshold))))"

section \<open>Peer authentication\<close>

text \<open>
  \<^verbatim>\<open>binary.BigEndian.PutUint64\<close> and \<^verbatim>\<open>binary.BigEndian.Uint64\<close> of Go's library. \<^verbatim>\<open>Uint64\<close>
  reads the first eight bytes; both callers have checked the length before.
\<close>

definition PutUint64 :: "u64 \<Rightarrow> byte list" where
  "PutUint64 v =
     [ucast (drop_bit 56 v), ucast (drop_bit 48 v), ucast (drop_bit 40 v),
      ucast (drop_bit 32 v), ucast (drop_bit 24 v), ucast (drop_bit 16 v),
      ucast (drop_bit 8 v), ucast v]"

definition Uint64 :: "byte list \<Rightarrow> u64" where
  "Uint64 b =
     (ucast (b ! 7) OR push_bit 8 (ucast (b ! 6)) OR push_bit 16 (ucast (b ! 5))
      OR push_bit 24 (ucast (b ! 4)) OR push_bit 32 (ucast (b ! 3))
      OR push_bit 40 (ucast (b ! 2)) OR push_bit 48 (ucast (b ! 1))
      OR push_bit 56 (ucast (b ! 0)))"

text \<open>
  Go's conversion of an integer to \<^verbatim>\<open>float64\<close> rounds to the nearest value with a 53-bit
  significand, ties to even. Every \<^verbatim>\<open>float64\<close> that \<^verbatim>\<open>AuthenticateAs\<close> computes is such a
  rounded integer (the difference of two of them is an integer, rounded again), so a
  \<^verbatim>\<open>float64\<close> is modelled by the integer it holds. \<open>dropped_bits a\<close> is the number of low
  bits that do not fit the significand.
\<close>

function dropped_bits :: "int \<Rightarrow> nat" where
  "dropped_bits a = (if a < 2 ^ 53 then 0 else Suc (dropped_bits (a div 2)))"
  by pat_completeness auto
termination
  by (relation "measure nat") auto

declare dropped_bits.simps [simp del]

definition float64_of_int :: "int \<Rightarrow> int" where
  "float64_of_int x =
     (let a = \<bar>x\<bar>;
          e = dropped_bits a;
          q = a div 2 ^ e;
          r = a mod 2 ^ e;
          q' = (if 2 * r > 2 ^ e \<or> (2 * r = 2 ^ e \<and> odd q) then q + 1 else q)
      in sgn x * (q' * 2 ^ e))"

text \<open>\<^verbatim>\<open>math.Abs(float64(now) - float64(ts)) > float64(timeoutSec)\<close>, with \<open>now\<close> and
  \<open>timeoutSec\<close> of type \<^verbatim>\<open>int64\<close> and \<open>ts\<close> of type \<^verbatim>\<open>uint64\<close>.\<close>

definition float64_distance_exceeds :: "i64 \<Rightarrow> u64 \<Rightarrow> i64 \<Rightarrow> bool" where
  "float64_distance_exceeds now ts timeoutSec =
     (\<bar>float64_of_int (float64_of_int (sint now) - float64_of_int (uint ts))\<bar>
        > float64_of_int (sint timeoutSec))"

text \<open>
  The functions of packages \<^verbatim>\<open>crypto\<close> and \<^verbatim>\<open>common\<close>, which are not among the sources:
  parameters, gathered in a record.
\<close>

record Crypto =
  Blake3Hash :: "byte list \<Rightarrow> Hash"
  Key_Public :: "Key \<Rightarrow> Key"
  Key_Sign :: "Key \<Rightarrow> Hash \<Rightarrow> Signature"
  Key_Verify :: "Key \<Rightarrow> Hash \<Rightarrow> Signature \<Rightarrow> bool"
  Key_DeterministicHashDerive :: "Key \<Rightarrow> Key"
  Address_Hash :: "Address \<Rightarrow> Hash"
  Hash_ForNetwork :: "Hash \<Rightarrow> Hash \<Rightarrow> Hash"

text \<open>The zero value of \<^verbatim>\<open>crypto.Key\<close>.\<close>

definition zeroKey :: Key where
  "zeroKey = replicate 32 0"

definition loadNodeConfig :: "Crypto \<Rightarrow> 'c Node \<Rightarrow> 'c Node" where
  "loadNodeConfig cr node =
     (let priv = custom_Node_Signer (custom node);
          pub = Key_Public cr priv;
          privView = Key_DeterministicHashDerive cr pub;
          addr = \<lparr>PrivateSpendKey = priv, PrivateViewKey = privView,
                  PublicSpendKey = pub, PublicViewKey = Key_Public cr privView\<rparr>
      in node\<lparr>node_Signer := addr,
              isRelayer := custom_P2P_Relayer (custom node),
              Listener := custom_LegacyNetwork_Listener (custom node)\<rparr>)"

text \<open>\<open>now\<close> is \<^verbatim>\<open>clock.Now().Unix()\<close>, an \<^verbatim>\<open>int64\<close> of seconds.\<close>

definition BuildAuthenticationMessage :: "Crypto \<Rightarrow> 'c Node \<Rightarrow> i64 \<Rightarrow> Hash \<Rightarrow> byte list" where
  "BuildAuthenticationMessage cr node now relayerId =
     (let data = PutUint64 now @ relayerId @ PublicSpendKey (node_Signer node)
                 @ [if isRelayer node then 1 else 0];
          dh = Blake3Hash cr data;
          sig = Key_Sign cr (PrivateSpendKey (node_Signer node)) dh
      in data @ sig)"

record AuthToken =
  PeerId :: Hash
  tok_Timestamp :: u64
  IsRelayer :: bool
  Data :: "byte list"

text \<open>The errors of the two verifiers, which the source builds with \<^verbatim>\<open>fmt.Errorf\<close>, named
  as in the spec's taxonomy.\<close>

datatype auth_error =
  AuthMalformed | AuthTimeout | AuthWrongRecipient | AuthSelfPeer | AuthSignerMismatch
  | AuthBadSignature

text \<open>The signer a verifier rebuilds from the public spend key of the message; its private
  keys keep their zero value.\<close>

definition signerOf :: "Crypto \<Rightarrow> Key \<Rightarrow> Address" where
  "signerOf cr pub =
     \<lparr>PrivateSpendKey = zeroKey, PrivateViewKey = zeroKey, PublicSpendKey = pub,
      PublicViewKey = Key_Public cr (Key_DeterministicHashDerive cr pub)\<rparr>"

definition AuthenticateAs ::
  "Crypto \<Rightarrow> 'c Node \<Rightarrow> i64 \<Rightarrow> Hash \<Rightarrow> byte list \<Rightarrow> i64 \<Rightarrow> auth_error + AuthToken" where
  "AuthenticateAs cr node now recipientId msg timeoutSec =
     (if length msg \<noteq> 137 then Inl AuthMalformed
      else
        (let ts = Uint64 (take 8 msg) in
         if 0 <s timeoutSec \<and> float64_distance_exceeds now ts timeoutSec then Inl AuthTimeout
         else
           (let relayerId = take 32 (drop 8 msg) in
            if relayerId \<noteq> recipientId then Inl AuthWrongRecipient
            else
              (let signer = signerOf cr (take 32 (drop 40 msg));
                   peerId = Hash_ForNetwork cr (Address_Hash cr signer) (networkId node)
               in
               if peerId = recipientId then Inl AuthSelfPeer
               else
                 (let sig = take 64 (drop 73 msg);
                      mh = Blake3Hash cr (take 73 msg)
                  in
                  if \<not> Key_Verify cr (PublicSpendKey signer) mh sig then Inl AuthBadSignature
                  else Inr \<lparr>PeerId = peerId, tok_Timestamp = ts,
                            IsRelayer = (msg ! 72 = 1), Data = msg\<rparr>)))))"

definition BuildLegacyAuthenticationMessage :: "Crypto \<Rightarrow> 'c Node \<Rightarrow> i64 \<Rightarrow> byte list" where
  "BuildLegacyAuthenticationMessage cr node now =
     (let data = PutUint64 now @ PublicSpendKey (node_Signer node);
          dh = Blake3Hash cr data;
          sig = Key_Sign cr (PrivateSpendKey (node_Signer node)) dh
      in (data @ sig) @ Listener node)"

text \<open>\<open>nowNano\<close> is \<^verbatim>\<open>uint64(clock.Now().UnixNano())\<close>.\<close>

definition GetAcceptedOrPledgingNode :: "'c Node \<Rightarrow> u64 \<Rightarrow> Hash \<Rightarrow> CNode option" where
  "GetAcceptedOrPledgingNode node nowNano h =
     find (\<lambda>cn. IdForNetwork cn = h \<and>
                (State cn = NodeStateAccepted \<or> State cn = NodeStatePledging))
          (NodesListWithoutState node nowNano False)"

text \<open>
  The legacy verifier. \<open>now\<close> is \<^verbatim>\<open>clock.Now().Unix()\<close>; the timeout check is
  \<^verbatim>\<open>clock.Now().Unix()-int64(ts) > 3\<close>, a signed 64-bit subtraction and comparison.
\<close>

definition Authenticate ::
  "Crypto \<Rightarrow> 'c Node \<Rightarrow> i64 \<Rightarrow> u64 \<Rightarrow> byte list \<Rightarrow> auth_error + (Hash \<times> byte list)" where
  "Authenticate cr node now nowNano msg =
     (if length msg < 8 + 32 + 64 then Inl AuthMalformed
      else
        (let ts = Uint64 (take 8 msg) in
         if 3 <s now - ts then Inl AuthTimeout
         else
           (let signer = signerOf cr (take 32 (drop 8 msg));
                peerId = Hash_ForNetwork cr (Address_Hash cr signer) (networkId node)
            in
            if peerId = node_IdForNetwork node then Inl AuthSelfPeer
            else
              (let peer = GetAcceptedOrPledgingNode node nowNano peerId in
               if (case peer of None \<Rightarrow> False
                   | Some p \<Rightarrow> Address_Hash cr (Signer p) \<noteq> Address_Hash cr signer)
               then Inl AuthSignerMismatch
               else
                 (let sig = take 64 (drop 40 msg);
                      mh = Blake3Hash cr (take 40 msg)
                  in
                  if \<not> Key_Verify cr (PublicSpendKey signer) mh sig then Inl AuthBadSignature
                  else Inr (peerId, drop (40 + 64) msg))))))"

section \<open>The graph pusher\<close>

text \<open>
  \<^verbatim>\<open>sendGraphToConcensusNodes\<close> is a loop with no exit: it sends a graph message to every
  accepted node and then blocks on \<^verbatim>\<open>graphTicker.C\<close>. The environment is a list of
  events in the order they happen: the ticker delivering a tick (with the reading of
  \<^verbatim>\<open>uint64(clock.Now().UnixNano())\<close> the loop body takes next) and the closing of
  \<^verbatim>\<open>node.done\<close>. The result is what happens while these events are consumed: the sends of
  the loop, and the place of the closing of \<^verbatim>\<open>node.done\<close> among them. The loop has no
  statement that receives from \<^verbatim>\<open>node.done\<close>, so that event leaves it blocked on the
  ticker.
\<close>

datatype pusher_event = TickerFires u64 | DoneClosed

datatype pusher_step = SendGraphMessage Hash | DoneWasClosed

definition sendGraphRound :: "'c Node \<Rightarrow> u64 \<Rightarrow> pusher_step list" where
  "sendGraphRound node nowNano =
     map (\<lambda>cn. SendGraphMessage (IdForNetwork cn)) (NodesListWithoutState node nowNano True)"

fun waitGraphTicker :: "'c Node \<Rightarrow> pusher_event list \<Rightarrow> pusher_step list" where
  "waitGraphTicker node [] = []"
| "waitGraphTicker node (DoneClosed # evs) = DoneWasClosed # waitGraphTicker node evs"
| "waitGraphTicker node (TickerFires nowNano # evs) =
     sendGraphRound node nowNano @ waitGraphTicker node evs"

definition sendGraphToConcensusNodes ::
  "'c Node \<Rightarrow> u64 \<Rightarrow> pusher_event list \<Rightarrow> pusher_step list" where
  "sendGraphToConcensusNodes node nowNano evs =
     sendGraphRound node nowNano @ waitGraphTicker node evs"

text \<open>
  \<^verbatim>\<open>waitOrDone\<close>, the helper of the same file that does select on \<^verbatim>\<open>node.done\<close>: the first
  event decides, the closing of \<^verbatim>\<open>node.done\<close> giving true and the timer (here the event
  \<open>TickerFires\<close>) false; \<open>None\<close> is a call still blocked when the events end.
\<close>

fun waitOrDone :: "pusher_event list \<Rightarrow> bool option" where
  "waitOrDone [] = None"
| "waitOrDone (DoneClosed # evs) = Some True"
| "waitOrDone (TickerFires nowNano # evs) = Some False"

section \<open>Statements of the specification\<close>

text \<open>
  The rule of the specification for the consensus base: a Pledging node counts iff the
  flag \<open>final\<close> is false and its timestamp plus the accept period less three threshold gaps
  is below \<open>T\<close>; an Accepted node counts iff it is a genesis node or its timestamp plus one
  threshold gap is below \<open>T\<close>. Sums and comparisons are those of \<^verbatim>\<open>uint64\<close>.
\<close>

definition counted_in_base :: "'c Node \<Rightarrow> Config \<Rightarrow> u64 \<Rightarrow> bool \<Rightarrow> CNode \<Rightarrow> bool" where
  "counted_in_base node cfg T final cn =
     ((State cn = NodeStatePledging \<and> \<not> final \<and>
         Timestamp cn + (KernelNodeAcceptPeriodMinimum cfg
            - 3 * (SnapshotReferenceThreshold cfg * SnapshotRoundGap cfg)) < T)
      \<or> (State cn = NodeStateAccepted \<and>
           (isGenesis node (IdForNetwork cn)
            \<or> Timestamp cn + SnapshotReferenceThreshold cfg * SnapshotRoundGap cfg < T)))"

definition valid_config :: "Config \<Rightarrow> bool" where
  "valid_config cfg =
     (SnapshotReferenceThreshold cfg * SnapshotRoundGap cfg \<le> 3 * time_Minute
      \<and> time_Hour \<le>s KernelNodeAcceptPeriodMinimum cfg)"

text \<open>
  The specification's broadcast rule: a node of the accepted list counts iff it has a
  remote sync point with \<open>remote.Number + 1 \<ge> final\<close> (a \<^verbatim>\<open>uint64\<close> sum). The verdict is
  false without a local chain state or with an empty sync-point map, and otherwise says
  whether one (for the node itself) plus the counted nodes reaches the threshold.
\<close>

definition broadcast_reached :: "(Hash \<times> SyncPoint) list \<Rightarrow> u64 \<Rightarrow> CNode \<Rightarrow> bool" where
  "broadcast_reached spm final cn =
     (case map_of spm (IdForNetwork cn) of
        None \<Rightarrow> False
      | Some remote \<Rightarrow> Number remote + 1 \<ge> final)"

definition broadcast_verdict :: "'c Node \<Rightarrow> CNode list \<Rightarrow> int \<Rightarrow> bool" where
  "broadcast_verdict node nodes threshold =
     (case chain_State node of
        None \<Rightarrow> False
      | Some state \<Rightarrow>
          SyncPointsMap node \<noteq> []
          \<and> threshold \<le> 1 + int (length (filter
               (broadcast_reached (SyncPointsMap node) (fr_Number (FinalRound state))) nodes)))"

text \<open>
  The specification's catch-up rule. A node with a remote sync point is counted. Its
  remote is in step when \<open>remote.Number\<close> is at most \<open>final + 1\<close> (as numbers) and, where it
  is exactly \<open>final + 1\<close>, the cache round exists, its projection \<^verbatim>\<open>asFinal\<close> exists, the
  projection's hash is \<open>remote.Hash\<close> and its start plus \<open>SnapshotRoundGap * 100\<close> (a
  \<^verbatim>\<open>uint64\<close> sum) is at most \<open>now\<close>. The verdict is false without a local chain state, with
  an empty sync-point map or with a node whose remote is out of step, and otherwise says
  whether one plus the counted nodes reaches the threshold.
\<close>

definition has_sync_point :: "(Hash \<times> SyncPoint) list \<Rightarrow> CNode \<Rightarrow> bool" where
  "has_sync_point spm cn = (map_of spm (IdForNetwork cn) \<noteq> None)"

definition cache_agrees ::
  "('c \<Rightarrow> FinalRound option) \<Rightarrow> Config \<Rightarrow> u64 \<Rightarrow> 'c option \<Rightarrow> SyncPoint \<Rightarrow> bool" where
  "cache_agrees asFinal cfg now cache remote =
     (case cache of
        None \<Rightarrow> False
      | Some c \<Rightarrow>
          (case asFinal c of
             None \<Rightarrow> False
           | Some cf \<Rightarrow> fr_Hash cf = sp_Hash remote
                        \<and> Start cf + SnapshotRoundGap cfg * 100 \<le> now))"

definition remote_in_step ::
  "('c \<Rightarrow> FinalRound option) \<Rightarrow> Config \<Rightarrow> u64 \<Rightarrow> 'c option \<Rightarrow> u64 \<Rightarrow>
   (Hash \<times> SyncPoint) list \<Rightarrow> CNode \<Rightarrow> bool" where
  "remote_in_step asFinal cfg now cache final spm cn =
     (case map_of spm (IdForNetwork cn) of
        None \<Rightarrow> True
      | Some remote \<Rightarrow>
          unat (Number remote) \<le> unat final + 1
          \<and> (if unat (Number remote) = unat final + 1
              then cache_agrees asFinal cfg now cache remote else True))"

definition catch_up_verdict ::
  "('c \<Rightarrow> FinalRound option) \<Rightarrow> 'c Node \<Rightarrow> Config \<Rightarrow> u64 \<Rightarrow> CNode list \<Rightarrow> int \<Rightarrow> bool" where
  "catch_up_verdict asFinal node cfg now nodes threshold =
     (case chain_State node of
        None \<Rightarrow> False
      | Some state \<Rightarrow>
          SyncPointsMap node \<noteq> []
          \<and> list_all (remote_in_step asFinal cfg now (CacheRound state)
                        (fr_Number (FinalRound state)) (SyncPointsMap node)) nodes
          \<and> threshold \<le> 1 + int (length (filter (has_sync_point (SyncPointsMap node)) nodes)))"

text \<open>
  The conditions of the new-handshake verifier, as the specification lists them: the
  timeout condition (armed only by a positive \<open>timeoutSec\<close>), the peer id derived from the
  signer key in the message, and the validity of the signature over the first 73 bytes.
\<close>

definition auth_timed_out :: "i64 \<Rightarrow> byte list \<Rightarrow> i64 \<Rightarrow> bool" where
  "auth_timed_out now msg timeoutSec =
     (0 <s timeoutSec \<and> float64_distance_exceeds now (Uint64 (take 8 msg)) timeoutSec)"

definition message_peer_id :: "Crypto \<Rightarrow> 'c Node \<Rightarrow> byte list \<Rightarrow> Hash" where
  "message_peer_id cr node msg =
     Hash_ForNetwork cr (Address_Hash cr (signerOf cr (take 32 (drop 40 msg)))) (networkId node)"

definition signature_valid :: "Crypto \<Rightarrow> byte list \<Rightarrow> bool" where
  "signature_valid cr msg =
     Key_Verify cr (take 32 (drop 40 msg)) (Blake3Hash cr (take 73 msg)) (take 64 (drop 73 msg))"

text \<open>
  What the handshake round trip needs of the absent package \<^verbatim>\<open>crypto\<close>: keys have 32 bytes
  and signatures 64, a signature verifies under the public key of the key that made it,
  and the hash of an address covers its two public keys only.
\<close>

definition crypto_sound :: "Crypto \<Rightarrow> bool" where
  "crypto_sound cr =
     ((\<forall>k. length (Key_Public cr k) = 32)
      \<and> (\<forall>k h. length (Key_Sign cr k h) = 64)
      \<and> (\<forall>k h. Key_Verify cr (Key_Public cr k) h (Key_Sign cr k h))
      \<and> (\<forall>a b. PublicSpendKey a = PublicSpendKey b \<and> PublicViewKey a = PublicViewKey b
             \<longrightarrow> Address_Hash cr a = Address_Hash cr b))"

text \<open>
  Modelled from the spec: \<^verbatim>\<open>LoadGenesis\<close>, which is not among the sources, populates
  \<^verbatim>\<open>id_for_network\<close>; the node's own id is the hash of its signer for the network, the
  same derivation the verifiers apply to a peer's signer.
\<close>

definition own_IdForNetwork :: "Crypto \<Rightarrow> 'c Node \<Rightarrow> Hash" where
  "own_IdForNetwork cr node =
     Hash_ForNetwork cr (Address_Hash cr (node_Signer node)) (networkId node)"

text \<open>
  The canonical order of the specification: timestamp ascending, ties broken by the
  hex-encoded id string ascending. The active entries are the Accepted and the Pledging
  ones.
\<close>

definition canonical_le :: "CNode \<Rightarrow> CNode \<Rightarrow> bool" where
  "canonical_le a b =
     (Timestamp a < Timestamp b
      \<or> (Timestamp a = Timestamp b
          \<and> Hash_String (IdForNetwork a) \<le> Hash_String (IdForNetwork b)))"

definition is_active :: "CNode \<Rightarrow> bool" where
  "is_active cn = (State cn = NodeStateAccepted \<or> State cn = NodeStatePledging)"

section \<open>Example data\<close>

text \<open>
  A registry of four genesis nodes accepted at time 1 and a fifth node pledging at time
  1000, with the sequences that \<^verbatim>\<open>buildNodeStateSequences\<close> derives from it. The
  configuration has a round gap of 3 s, a reference threshold of 10 and an accept period
  of 12 h.
\<close>

definition example_address :: "byte \<Rightarrow> Address" where
  "example_address b =
     \<lparr>PrivateSpendKey = zeroKey, PrivateViewKey = zeroKey,
      PublicSpendKey = replicate 32 b, PublicViewKey = replicate 32 b\<rparr>"

definition example_cnode :: "byte \<Rightarrow> u64 \<Rightarrow> string \<Rightarrow> CNode" where
  "example_cnode b ts st =
     \<lparr>IdForNetwork = replicate 32 b, Signer = example_address b, Payee = example_address b,
      Transaction = replicate 32 b, Timestamp = ts, State = st, ConsensusIndex = 0\<rparr>"

definition example_registry :: "CNode list" where
  "example_registry =
     [example_cnode 1 1 NodeStateAccepted, example_cnode 2 1 NodeStateAccepted,
      example_cnode 3 1 NodeStateAccepted, example_cnode 4 1 NodeStateAccepted,
      example_cnode 5 1000 NodeStatePledging]"

definition example_config :: Config where
  "example_config =
     \<lparr>SnapshotRoundGap = 3000000000, SnapshotReferenceThreshold = 10,
      KernelNodeAcceptPeriodMinimum = 43200000000000, KernelMinimumNodesCount = 4\<rparr>"

definition example_blank :: "FinalRound option Node" where
  "example_blank =
     \<lparr>node_IdForNetwork = replicate 32 1, node_Signer = example_address 1, isRelayer = False,
      Listener = [], SyncPointsMap = [], chain_State = None,
      allNodesSortedWithState = example_registry, nodeStateSequences = [],
      acceptedNodeStateSequences = [],
      genesisNodesMap = [(replicate 32 1, True), (replicate 32 2, True),
                         (replicate 32 3, True), (replicate 32 4, True)],
      networkId = replicate 32 9,
      custom = \<lparr>custom_Node_Signer = replicate 32 7, custom_P2P_Relayer = True,
                custom_LegacyNetwork_Listener = []\<rparr>\<rparr>"

definition example_node :: "FinalRound option Node" where
  "example_node =
     example_blank
       \<lparr>nodeStateSequences := buildNodeStateSequences example_blank example_registry False,
        acceptedNodeStateSequences := buildNodeStateSequences example_blank example_registry True\<rparr>"

text \<open>
  The example node with a chain state (final round 100, a cache round whose projection
  started at time 1000) and the sync points of three accepted peers, at rounds 100, 101
  and 99; the peer at round 101 reports the hash of the cache round. The cache round is
  represented by its projection, so \<^verbatim>\<open>asFinal\<close> is the identity.
\<close>

definition example_sync_point :: "byte \<Rightarrow> u64 \<Rightarrow> SyncPoint" where
  "example_sync_point h n = \<lparr>NodeId = replicate 32 1, sp_Hash = replicate 32 h, Number = n\<rparr>"

definition example_synced :: "FinalRound option Node" where
  "example_synced =
     example_node
       \<lparr>SyncPointsMap := [(replicate 32 2, example_sync_point 170 100),
                          (replicate 32 3, example_sync_point 187 101),
                          (replicate 32 4, example_sync_point 153 99)],
        chain_State := Some
          \<lparr>CacheRound = Some (Some \<lparr>fr_Hash = replicate 32 187, fr_Number = 101, Start = 1000\<rparr>),
           FinalRound = \<lparr>fr_Hash = replicate 32 170, fr_Number = 100, Start = 500\<rparr>\<rparr>\<rparr>"

text \<open>
  A toy instance of the cryptographic parameters, for evaluating the verifiers on concrete
  messages: the public key of a key adds one to each byte, a signature is the public key
  followed by the hash, and hashes are cut or padded to 32 bytes.
\<close>

definition example_crypto :: Crypto where
  "example_crypto =
     \<lparr>Blake3Hash = (\<lambda>d. take 32 (d @ replicate 32 0)),
      Key_Public = (\<lambda>k. take 32 (map (\<lambda>b. b + 1) k @ replicate 32 0)),
      Key_Sign = (\<lambda>k h. take 64 (take 32 (map (\<lambda>b. b + 1) k @ replicate 32 0) @ h
                                    @ replicate 64 0)),
      Key_Verify = (\<lambda>p h s. s = take 64 (p @ h @ replicate 64 0)),
      Key_DeterministicHashDerive = (\<lambda>k. take 32 (rev k @ replicate 32 0)),
      Address_Hash = (\<lambda>a. take 32 (map2 (XOR) (PublicSpendKey a) (PublicViewKey a)
                                       @ replicate 32 0)),
      Hash_ForNetwork = (\<lambda>h n. take 32 (map2 (XOR) h n @ replicate 32 0))\<rparr>"

text \<open>The example node (before its sequences are built) after \<^verbatim>\<open>loadNodeConfig\<close>, with
  its own id set from its signer.\<close>

definition example_booted :: "FinalRound option Node" where
  "example_booted =
     (loadNodeConfig example_crypto example_blank)
       \<lparr>node_IdForNetwork :=
          own_IdForNetwork example_crypto (loadNodeConfig example_crypto example_blank)\<rparr>"

text \<open>A legacy message whose eight timestamp bytes are all \<open>0xff\<close>.\<close>

definition example_far_future_message :: "byte list" where
  "example_far_future_message = replicate 8 255 @ replicate 32 1 @ replicate 64 0"

text \<open>A legacy message dated one million seconds after the Unix time 1700000000.\<close>

definition example_future_message :: "byte list" where
  "example_future_message = PutUint64 1701000000 @ replicate 32 1 @ replicate 64 0"

text \<open>A registry of one node accepted at time 1 and another node removed at time 2.\<close>

definition example_removed :: "FinalRound option Node" where
  "example_removed =
     example_blank
       \<lparr>allNodesSortedWithState :=
          [example_cnode 1 1 NodeStateAccepted, example_cnode 2 2 NodeStateRemoved]\<rparr>"

section \<open>Properties\<close>

subsection \<open>Unsigned 64-bit comparisons\<close>

lemma word_add_less_unat:
  fixes a b t :: u64
  assumes "unat a + unat b < 2 ^ 64"
  shows "(a + b < t) = (unat a + unat b < unat t)"
  using assms by (simp add: word_less_nat_alt unat_word_ariths)

lemma word_lt_succ:
  fixes x :: u64
  assumes "unat x + 1 < 2 ^ 64"
  shows "x < x + 1"
  using assms by (simp add: word_less_nat_alt unat_word_ariths)

lemma states_distinct: "NodeStatePledging \<noteq> NodeStateAccepted"
  by (simp add: NodeStatePledging_def NodeStateAccepted_def)

subsection \<open>ConsensusReady\<close>

text \<open>
  Claim C4. \<^verbatim>\<open>ConsensusReady(cn, T)\<close> is false when the state of \<open>cn\<close> is not Accepted and
  true when \<open>cn\<close> is an Accepted genesis node. For an Accepted node that is not a genesis
  node it is true iff \<open>cn.Timestamp + KernelNodeAcceptPeriodMinimum < T\<close>, strictly, the
  sum being that of \<^verbatim>\<open>uint64\<close>: it is false at \<open>T = cn.Timestamp +
  KernelNodeAcceptPeriodMinimum\<close>, and where that value plus 1 is still a \<^verbatim>\<open>uint64\<close> it is
  true there, and the comparison is the one of the unbounded sum.
\<close>

theorem ConsensusReady_rule:
  "(State cn \<noteq> NodeStateAccepted \<longrightarrow> \<not> ConsensusReady node cfg cn T)
   \<and> (State cn = NodeStateAccepted \<and> isGenesis node (IdForNetwork cn)
        \<longrightarrow> ConsensusReady node cfg cn T)
   \<and> (State cn = NodeStateAccepted \<and> \<not> isGenesis node (IdForNetwork cn) \<longrightarrow>
        ConsensusReady node cfg cn T = (Timestamp cn + KernelNodeAcceptPeriodMinimum cfg < T)
        \<and> \<not> ConsensusReady node cfg cn (Timestamp cn + KernelNodeAcceptPeriodMinimum cfg)
        \<and> (unat (Timestamp cn) + unat (KernelNodeAcceptPeriodMinimum cfg) + 1 < 2 ^ 64 \<longrightarrow>
             ConsensusReady node cfg cn (Timestamp cn + KernelNodeAcceptPeriodMinimum cfg + 1)
             \<and> ConsensusReady node cfg cn T
                = (unat (Timestamp cn) + unat (KernelNodeAcceptPeriodMinimum cfg) < unat T)))"
proof -
  have a: "unat (Timestamp cn) + unat (KernelNodeAcceptPeriodMinimum cfg) + 1 < 2 ^ 64 \<Longrightarrow>
     Timestamp cn + KernelNodeAcceptPeriodMinimum cfg
       < Timestamp cn + KernelNodeAcceptPeriodMinimum cfg + 1"
    by (rule word_lt_succ) (simp add: unat_word_ariths)
  have b: "unat (Timestamp cn) + unat (KernelNodeAcceptPeriodMinimum cfg) + 1 < 2 ^ 64 \<Longrightarrow>
     (Timestamp cn + KernelNodeAcceptPeriodMinimum cfg < T)
       = (unat (Timestamp cn) + unat (KernelNodeAcceptPeriodMinimum cfg) < unat T)"
    by (rule word_add_less_unat) simp
  show ?thesis
    using a b by (auto simp add: ConsensusReady_def)
qed

text \<open>The pledging node of the example, once accepted at time 1000, is not ready 12 h
  later to the nanosecond and is ready one nanosecond after that.\<close>

theorem ConsensusReady_rule_witness:
  "State (example_cnode 5 1000 NodeStateAccepted) = NodeStateAccepted
   \<and> \<not> isGenesis example_node (IdForNetwork (example_cnode 5 1000 NodeStateAccepted))
   \<and> unat (Timestamp (example_cnode 5 1000 NodeStateAccepted))
       + unat (KernelNodeAcceptPeriodMinimum example_config) + 1 < 2 ^ 64
   \<and> \<not> ConsensusReady example_node example_config
         (example_cnode 5 1000 NodeStateAccepted) 43200000001000
   \<and> ConsensusReady example_node example_config
         (example_cnode 5 1000 NodeStateAccepted) 43200000001001"
proof -
  have s: "State (example_cnode 5 1000 NodeStateAccepted) = NodeStateAccepted"
    by (simp add: example_cnode_def)
  have g: "\<not> isGenesis example_node (IdForNetwork (example_cnode 5 1000 NodeStateAccepted))"
    by code_simp
  have r: "unat (Timestamp (example_cnode 5 1000 NodeStateAccepted))
       + unat (KernelNodeAcceptPeriodMinimum example_config) + 1 < 2 ^ 64"
    by (simp add: example_cnode_def example_config_def)
  have t: "Timestamp (example_cnode 5 1000 NodeStateAccepted)
       + KernelNodeAcceptPeriodMinimum example_config = 43200000001000"
    by (simp add: example_cnode_def example_config_def)
  show ?thesis
    using ConsensusReady_rule [of "example_cnode 5 1000 NodeStateAccepted" example_node
        example_config "43200000001000"] s g r t
    by simp
qed

subsection \<open>ConsensusThreshold\<close>

lemma consensusBaseLoop_step:
  assumes "valid_config cfg"
  shows "consensusBaseLoop node cfg T final (cn # cns) base
         = consensusBaseLoop node cfg T final cns
             (base + (if counted_in_base node cfg T final cn then 1 else 0))"
proof -
  have thr: "\<not> 3 * time_Minute < SnapshotReferenceThreshold cfg * SnapshotRoundGap cfg"
    using assms by (simp add: valid_config_def not_less)
  have per: "\<not> KernelNodeAcceptPeriodMinimum cfg <s time_Hour"
    using assms by (simp add: valid_config_def word_sless_alt word_sle_eq)
  show ?thesis
    using thr per states_distinct
    by (auto simp add: counted_in_base_def Let_def mult.commute)
qed

lemma consensusBaseLoop_count:
  assumes "valid_config cfg"
  shows "consensusBaseLoop node cfg T final cns base
         = Inr (base + int (length (filter (counted_in_base node cfg T final) cns)))"
proof (induction cns arbitrary: base)
  case Nil
  then show ?case by simp
next
  case (Cons cn cns)
  show ?case
    unfolding consensusBaseLoop_step [OF assms] Cons.IH by simp
qed

text \<open>With a threshold gap above three minutes the loop panics at the first node.\<close>

lemma ConsensusThreshold_panics:
  assumes "3 * time_Minute < SnapshotReferenceThreshold cfg * SnapshotRoundGap cfg"
    and "NodesListWithoutState node T False \<noteq> []"
  shows "ConsensusThreshold node cfg T final = Inl ShouldNeverBeHere"
proof -
  obtain cn cns where "NodesListWithoutState node T False = cn # cns"
    using assms(2) by (cases "NodesListWithoutState node T False") auto
  then show ?thesis
    using assms(1) by (simp add: ConsensusThreshold_def Let_def)
qed

text \<open>
  Claim C1. With constants that pass the two sanity checks of the loop,
  \<^verbatim>\<open>ConsensusThreshold(T, final)\<close> counts, over \<^verbatim>\<open>NodesListWithoutState(T, false)\<close>, the nodes
  that the rule \<open>counted_in_base\<close> admits; it returns 1000 when that base is below
  \<^verbatim>\<open>KernelMinimumNodesCount\<close> and \<open>base * 2 / 3 + 1\<close> otherwise. With \<open>final\<close> set no Pledging
  node is counted.
\<close>

theorem ConsensusThreshold_counts:
  assumes "valid_config cfg"
  shows "ConsensusThreshold node cfg T final =
           Inr (let base = int (length (filter (counted_in_base node cfg T final)
                                   (NodesListWithoutState node T False)))
                in if base < KernelMinimumNodesCount cfg then 1000 else base * 2 div 3 + 1)
         \<and> (final \<longrightarrow>
              (\<forall>cn. counted_in_base node cfg T final cn \<longrightarrow> State cn \<noteq> NodeStatePledging))"
  using states_distinct
  by (auto simp add: ConsensusThreshold_def consensusBaseLoop_count [OF assms] Let_def
      counted_in_base_def)

text \<open>On the example, one nanosecond after the pledging node has matured: all five nodes
  count when \<open>final\<close> is false (threshold 4), the four accepted ones when it is true
  (threshold 3).\<close>

theorem ConsensusThreshold_counts_witness:
  "valid_config example_config
   \<and> ConsensusThreshold example_node example_config 43110000001001 False = Inr 4
   \<and> ConsensusThreshold example_node example_config 43110000001001 True = Inr 3"
proof -
  have v: "valid_config example_config"
    by code_simp
  have f: "length (filter (counted_in_base example_node example_config 43110000001001 False)
             (NodesListWithoutState example_node 43110000001001 False)) = 5"
    by code_simp
  have t: "length (filter (counted_in_base example_node example_config 43110000001001 True)
             (NodesListWithoutState example_node 43110000001001 False)) = 4"
    by code_simp
  have k: "KernelMinimumNodesCount example_config = 4"
    by (simp add: example_config_def)
  show ?thesis
    using ConsensusThreshold_counts [OF v, of example_node 43110000001001 False]
      ConsensusThreshold_counts [OF v, of example_node 43110000001001 True] v f t k
    by simp
qed

subsection \<open>CheckBroadcastedToP2PPeers\<close>

lemma ConsensusThreshold_returns:
  assumes "valid_config cfg"
  shows "\<exists>threshold. ConsensusThreshold node cfg T final = Inr threshold"
  by (simp add: ConsensusThreshold_def consensusBaseLoop_count [OF assms])

lemma broadcastLoop_count:
  "broadcastLoop spm final cns count
     = count + int (length (filter (broadcast_reached spm final) cns))"
  by (induction cns arbitrary: count) (auto simp add: broadcast_reached_def split: option.splits)

text \<open>
  Claim C3. With constants that pass the sanity checks, \<^verbatim>\<open>CheckBroadcastedToP2PPeers\<close>
  returns false when the sync-point map is empty or the local chain state is absent.
  Otherwise it starts a count at 1, adds 1 for each node of the accepted-only list whose
  remote sync point exists and has \<open>remote.Number + 1 \<ge> final\<close>, and returns whether the
  count reaches \<^verbatim>\<open>ConsensusThreshold(now, false)\<close>. The threshold is taken at the first clock
  reading and the node list at the second.
\<close>

theorem CheckBroadcastedToP2PPeers_counts:
  assumes "valid_config cfg"
  shows "\<exists>threshold. ConsensusThreshold node cfg (clk 0) False = Inr threshold
           \<and> CheckBroadcastedToP2PPeers node cfg clk =
               Inr (broadcast_verdict node (NodesListWithoutState node (clk 1) True) threshold)"
proof -
  obtain threshold where t: "ConsensusThreshold node cfg (clk 0) False = Inr threshold"
    using ConsensusThreshold_returns [OF assms] by blast
  show ?thesis
    using t by (auto simp add: CheckBroadcastedToP2PPeers_def broadcastLoop_count Let_def
        broadcast_verdict_def split: option.splits)
qed

text \<open>On the example, with threshold 3: the node itself and the three peers give 4.\<close>

theorem CheckBroadcastedToP2PPeers_counts_witness:
  "valid_config example_config
   \<and> ConsensusThreshold example_synced example_config 400000000000 False = Inr 3
   \<and> CheckBroadcastedToP2PPeers example_synced example_config (\<lambda>k. 400000000000) = Inr True"
proof -
  have v: "valid_config example_config"
    by code_simp
  obtain threshold where
    t: "ConsensusThreshold example_synced example_config 400000000000 False = Inr threshold"
    and r: "CheckBroadcastedToP2PPeers example_synced example_config (\<lambda>k. 400000000000) =
       Inr (broadcast_verdict example_synced
              (NodesListWithoutState example_synced 400000000000 True) threshold)"
    using CheckBroadcastedToP2PPeers_counts [OF v, of example_synced "\<lambda>k. 400000000000"]
    by blast
  have c: "ConsensusThreshold example_synced example_config 400000000000 False = Inr 3"
    by code_simp
  have b: "broadcast_verdict example_synced
             (NodesListWithoutState example_synced 400000000000 True) 3"
    by code_simp
  show ?thesis
    using v t r c b by simp
qed

subsection \<open>CheckCatchUpWithP2PPeers\<close>

lemma final_step_cases:
  fixes n final :: u64
  shows "(n \<le> final) = (unat n \<le> unat final)"
    and "\<not> n \<le> final \<Longrightarrow> (final + 1 < n) = (unat final + 1 < unat n)"
proof -
  show "(n \<le> final) = (unat n \<le> unat final)"
    by (simp add: word_le_nat_alt)
  assume "\<not> n \<le> final"
  then have "unat final < unat n"
    by (simp add: word_le_nat_alt)
  moreover have "unat n < 2 ^ 64"
    using unsigned_less [of n] by simp
  ultimately have "unat final + 1 < 2 ^ 64"
    by linarith
  then have "unat (final + 1) = unat final + 1"
    by (simp add: unat_word_ariths)
  then show "(final + 1 < n) = (unat final + 1 < unat n)"
    by (simp add: word_less_nat_alt)
qed

text \<open>One turn of the loop, for a clock that stands still at \<open>now\<close>.\<close>

lemma catchUpLoop_step:
  assumes "\<forall>k. clk k = now"
  shows "catchUpLoop asFinal cfg clk spm cache final (cn # cns) updated k =
           (if remote_in_step asFinal cfg now cache final spm cn
            then catchUpLoop asFinal cfg clk spm cache final cns
                   (updated + (if has_sync_point spm cn then 1 else 0))
                   (if has_sync_point spm cn
                       \<and> \<not> Number (the (map_of spm (IdForNetwork cn))) \<le> final
                    then Suc k else k)
            else None)"
proof (cases "map_of spm (IdForNetwork cn)")
  case None
  then show ?thesis
    by (simp add: remote_in_step_def has_sync_point_def)
next
  case (Some remote)
  show ?thesis
  proof (cases "Number remote \<le> final")
    case True
    then have "unat (Number remote) \<le> unat final"
      by (simp add: final_step_cases(1))
    then show ?thesis
      using Some True by (simp add: remote_in_step_def has_sync_point_def)
  next
    case False
    then have a: "\<not> unat (Number remote) \<le> unat final"
      by (simp add: final_step_cases(1))
    have b: "(final + 1 < Number remote) = (unat final + 1 < unat (Number remote))"
      using False by (rule final_step_cases(2))
    show ?thesis
    proof (cases "unat final + 1 < unat (Number remote)")
      case True
      then show ?thesis
        using Some False b by (simp add: remote_in_step_def has_sync_point_def)
    next
      case False
      then have c: "unat (Number remote) = unat final + 1"
        using a by linarith
      have d: "\<not> final + 1 < Number remote"
        using False b by simp
      show ?thesis
        using Some \<open>\<not> Number remote \<le> final\<close> c d assms
        by (auto simp add: remote_in_step_def has_sync_point_def cache_agrees_def not_less
            split: option.splits)
    qed
  qed
qed

lemma catchUpLoop_walk:
  assumes "\<forall>k. clk k = now"
  shows "catchUpLoop asFinal cfg clk spm cache final cns updated k =
           (if list_all (remote_in_step asFinal cfg now cache final spm) cns
            then Some (updated + int (length (filter (has_sync_point spm) cns)))
            else None)"
proof (induction cns arbitrary: updated k)
  case Nil
  then show ?case by simp
next
  case (Cons cn cns)
  show ?case
    unfolding catchUpLoop_step [OF assms] Cons.IH by simp
qed

text \<open>
  Claim C2. With constants that pass the sanity checks and a clock that reads \<open>now\<close>
  throughout the call, \<^verbatim>\<open>CheckCatchUpWithP2PPeers\<close> returns false if the sync-point map is
  empty or the local chain state is absent. Otherwise it walks the accepted-node list and
  counts, from 1, each node with a remote sync point; it returns false if some remote has
  \<open>remote.Number > final + 1\<close>, or has \<open>remote.Number = final + 1\<close> without the cache round
  existing, its projection existing, the projection's hash being \<open>remote.Hash\<close> and its
  start plus \<open>SnapshotRoundGap * 100\<close> being at most \<open>now\<close>; if the walk completes it
  returns whether the counter reaches \<^verbatim>\<open>ConsensusThreshold(now, false)\<close>.
\<close>

theorem CheckCatchUpWithP2PPeers_walk:
  assumes "valid_config cfg" and "\<forall>k. clk k = now"
  shows "\<exists>threshold. ConsensusThreshold node cfg now False = Inr threshold
           \<and> CheckCatchUpWithP2PPeers asFinal node cfg clk =
               Inr (catch_up_verdict asFinal node cfg now
                      (NodesListWithoutState node now True) threshold)"
proof -
  obtain threshold where t: "ConsensusThreshold node cfg now False = Inr threshold"
    using ConsensusThreshold_returns [OF assms(1)] by blast
  have c: "clk 0 = now" "clk (Suc 0) = now"
    using assms(2) by simp_all
  show ?thesis
    using t by (auto simp add: CheckCatchUpWithP2PPeers_def catchUpLoop_walk [OF assms(2)] c
        Let_def catch_up_verdict_def split: option.splits)
qed

text \<open>On the example: the peer one round ahead agrees with the cache round, which is old
  enough, and four nodes are counted against a threshold of 3.\<close>

theorem CheckCatchUpWithP2PPeers_walk_witness:
  "valid_config example_config
   \<and> ConsensusThreshold example_synced example_config 400000000000 False = Inr 3
   \<and> CheckCatchUpWithP2PPeers (\<lambda>c. c) example_synced example_config (\<lambda>k. 400000000000)
       = Inr True"
proof -
  have v: "valid_config example_config"
    by code_simp
  have k: "\<forall>k. (\<lambda>k. 400000000000 :: u64) k = 400000000000"
    by simp
  obtain threshold where
    t: "ConsensusThreshold example_synced example_config 400000000000 False = Inr threshold"
    and r: "CheckCatchUpWithP2PPeers (\<lambda>c. c) example_synced example_config
              (\<lambda>k. 400000000000) =
       Inr (catch_up_verdict (\<lambda>c. c) example_synced example_config 400000000000
              (NodesListWithoutState example_synced 400000000000 True) threshold)"
    using CheckCatchUpWithP2PPeers_walk [OF v k, of example_synced "\<lambda>c. c"]
    by blast
  have c: "ConsensusThreshold example_synced example_config 400000000000 False = Inr 3"
    by code_simp
  have b: "catch_up_verdict (\<lambda>c. c) example_synced example_config 400000000000
             (NodesListWithoutState example_synced 400000000000 True) 3"
    by code_simp
  show ?thesis
    using v t r c b by simp
qed

subsection \<open>Big-endian timestamps\<close>

lemma byte_of: "(ucast (ucast (drop_bit k v :: u64) :: byte) :: u64) = take_bit 8 (drop_bit k v)"
  by (rule bit_word_eqI) (auto simp add: bit_simps)

lemma Uint64_PutUint64_append: "Uint64 (PutUint64 v @ rest) = v"
proof -
  have "Uint64 (PutUint64 v @ rest) =
     take_bit 8 v OR push_bit 8 (take_bit 8 (drop_bit 8 v))
      OR push_bit 16 (take_bit 8 (drop_bit 16 v))
      OR push_bit 24 (take_bit 8 (drop_bit 24 v)) OR push_bit 32 (take_bit 8 (drop_bit 32 v))
      OR push_bit 40 (take_bit 8 (drop_bit 40 v)) OR push_bit 48 (take_bit 8 (drop_bit 48 v))
      OR push_bit 56 (take_bit 8 (drop_bit 56 v))"
    using byte_of [of 0 v] by (simp add: Uint64_def PutUint64_def byte_of)
  also have "\<dots> = v"
  proof (rule bit_word_eqI)
    fix n :: nat
    assume "n < LENGTH(64)"
    then have n: "n < 64" by simp
    consider "n < 8" | "8 \<le> n" "n < 16" | "16 \<le> n" "n < 24" | "24 \<le> n" "n < 32"
      | "32 \<le> n" "n < 40" | "40 \<le> n" "n < 48" | "48 \<le> n" "n < 56" | "56 \<le> n" "n < 64"
      using n by linarith
    then show "bit (take_bit 8 v OR push_bit 8 (take_bit 8 (drop_bit 8 v))
      OR push_bit 16 (take_bit 8 (drop_bit 16 v))
      OR push_bit 24 (take_bit 8 (drop_bit 24 v)) OR push_bit 32 (take_bit 8 (drop_bit 32 v))
      OR push_bit 40 (take_bit 8 (drop_bit 40 v)) OR push_bit 48 (take_bit 8 (drop_bit 48 v))
      OR push_bit 56 (take_bit 8 (drop_bit 56 v))) n = bit v n"
      by cases (auto simp add: bit_simps)
  qed
  finally show ?thesis .
qed

lemma length_PutUint64: "length (PutUint64 v) = 8"
  by (simp add: PutUint64_def)

lemma Uint64_PutUint64_exact: "Uint64 (PutUint64 v) = v"
  using Uint64_PutUint64_append [of v "[]"] by simp

subsection \<open>Signed 64-bit differences\<close>

lemma sub_as_word_of_int:
  fixes now ts :: u64
  shows "now - ts = word_of_int (sint now - uint ts)"
  by simp

lemma sint_sub_in_range:
  fixes now ts :: u64
  assumes "- (2 ^ 63) \<le> sint now - uint ts" and "sint now - uint ts < 2 ^ 63"
  shows "sint (now - ts) = sint now - uint ts"
proof -
  have "sint (now - ts) = signed_take_bit 63 (sint now - uint ts)"
    unfolding sub_as_word_of_int [of now ts] by (simp only: sint_sbintrunc') simp
  also have "\<dots> = sint now - uint ts"
    using assms by (intro signed_take_bit_int_eq_self) simp_all
  finally show ?thesis .
qed

lemma sint_sub_wrapped:
  fixes now ts :: u64
  assumes "sint now - uint ts < - (2 ^ 63)" and "0 \<le> sint now"
  shows "sint (now - ts) = sint now - uint ts + 2 ^ 64"
proof -
  have u: "uint ts < 2 ^ 64"
    using uint_bounded [of ts] by simp
  have "now - ts = word_of_int (sint now - uint ts + 2 ^ 64)"
    by simp
  then have "sint (now - ts) = signed_take_bit 63 (sint now - uint ts + 2 ^ 64)"
    by (simp only: sint_sbintrunc') simp
  also have "\<dots> = sint now - uint ts + 2 ^ 64"
    using assms u by (intro signed_take_bit_int_eq_self) simp_all
  finally show ?thesis .
qed

subsection \<open>The float64 comparison of AuthenticateAs\<close>

lemma dropped_bits_small: "a < 2 ^ 53 \<Longrightarrow> dropped_bits a = 0"
  by (subst dropped_bits.simps) simp

lemma dropped_bits_large:
  "2 ^ 53 \<le> a \<Longrightarrow> 0 < dropped_bits a \<and> 2 ^ 52 \<le> a div 2 ^ dropped_bits a"
proof (induction a rule: dropped_bits.induct)
  case (1 a)
  show ?case
  proof (cases "a div 2 < 2 ^ 53")
    case True
    have d: "dropped_bits a = Suc 0"
      using "1.prems" True by (subst dropped_bits.simps) (simp add: dropped_bits_small)
    have "2 ^ 52 \<le> a div 2"
      using "1.prems" by simp
    then show ?thesis
      using d by simp
  next
    case False
    then have ih: "0 < dropped_bits (a div 2) \<and> 2 ^ 52 \<le> a div 2 div 2 ^ dropped_bits (a div 2)"
      using "1.IH" "1.prems" by simp
    have d: "dropped_bits a = Suc (dropped_bits (a div 2))"
      using "1.prems" by (subst dropped_bits.simps) simp
    have "a div 2 div 2 ^ dropped_bits (a div 2) = a div 2 ^ Suc (dropped_bits (a div 2))"
      by (simp add: zdiv_zmult2_eq)
    then show ?thesis
      using ih unfolding d by simp
  qed
qed

lemma float64_of_int_exact:
  assumes "\<bar>x\<bar> < 2 ^ 53"
  shows "float64_of_int x = x"
proof -
  have "dropped_bits \<bar>x\<bar> = 0"
    using assms by (rule dropped_bits_small)
  then show ?thesis
    by (cases "0 \<le> x") (simp_all add: float64_of_int_def Let_def sgn_if)
qed

lemma float64_of_int_neg: "float64_of_int (- x) = - float64_of_int x"
  by (simp add: float64_of_int_def Let_def)

lemma float64_of_int_large:
  assumes "2 ^ 53 \<le> x"
  shows "2 ^ 53 \<le> float64_of_int x"
proof -
  define e where "e = dropped_bits \<bar>x\<bar>"
  define q where "q = \<bar>x\<bar> div 2 ^ e"
  have a: "2 ^ 53 \<le> \<bar>x\<bar>"
    using assms by simp
  have e: "0 < e" and q: "2 ^ 52 \<le> q"
    using dropped_bits_large [OF a] by (simp_all add: e_def q_def)
  have "(2::int) ^ 1 \<le> 2 ^ e"
    using e by (intro power_increasing) simp_all
  then have p: "(2::int) \<le> 2 ^ e"
    by simp
  have "(2::int) ^ 52 * 2 \<le> q * 2 ^ e"
    using q p by (intro mult_mono) simp_all
  then have l: "(2::int) ^ 53 \<le> q * 2 ^ e"
    by simp
  have m: "q * 2 ^ e \<le> (q + 1) * 2 ^ e"
    by (simp add: distrib_right)
  have s: "sgn x = 1"
    using assms by (simp add: sgn_if)
  have "q * 2 ^ e \<le> float64_of_int x"
    unfolding float64_of_int_def Let_def e_def [symmetric] q_def [symmetric] s
    using m by simp
  then show ?thesis
    using l by linarith
qed

lemma float64_of_int_magnitude:
  assumes "2 ^ 52 < \<bar>x\<bar>"
  shows "2 ^ 52 < \<bar>float64_of_int x\<bar>"
proof (cases "\<bar>x\<bar> < 2 ^ 53")
  case True
  then show ?thesis
    using assms by (simp add: float64_of_int_exact)
next
  case False
  then have l: "2 ^ 53 \<le> \<bar>x\<bar>"
    by simp
  have "2 ^ 53 \<le> float64_of_int \<bar>x\<bar>"
    using l by (rule float64_of_int_large)
  moreover have "\<bar>float64_of_int x\<bar> = \<bar>float64_of_int \<bar>x\<bar>\<bar>"
    by (cases "0 \<le> x") (simp_all add: float64_of_int_neg abs_if)
  ultimately show ?thesis
    by simp
qed

lemma float64_distance_exact:
  fixes now ts timeoutSec :: u64
  assumes "0 \<le> sint now" and "sint now < 2 ^ 52"
    and "0 < sint timeoutSec" and "sint timeoutSec \<le> 2 ^ 52"
  shows "float64_distance_exceeds now ts timeoutSec
           = (sint timeoutSec < \<bar>sint now - uint ts\<bar>)"
proof -
  have p52: "(2::int) ^ 52 = 4503599627370496" and p53: "(2::int) ^ 53 = 9007199254740992"
    by simp_all
  have n: "float64_of_int (sint now) = sint now"
    using assms by (intro float64_of_int_exact) simp
  have t: "float64_of_int (sint timeoutSec) = sint timeoutSec"
    using assms by (intro float64_of_int_exact) simp
  show ?thesis
  proof (cases "uint ts < 2 ^ 53")
    case True
    have u: "float64_of_int (uint ts) = uint ts"
      using True by (intro float64_of_int_exact) simp
    have "0 \<le> uint ts"
      by simp
    then have "\<bar>sint now - uint ts\<bar> < 2 ^ 53"
      using True assms unfolding p52 p53 by linarith
    then have "float64_of_int (sint now - uint ts) = sint now - uint ts"
      by (rule float64_of_int_exact)
    then show ?thesis
      by (simp add: float64_distance_exceeds_def n t u)
  next
    case False
    then have "2 ^ 53 \<le> float64_of_int (uint ts)"
      by (intro float64_of_int_large) simp
    then have "2 ^ 52 < \<bar>sint now - float64_of_int (uint ts)\<bar>"
      using assms unfolding p52 p53 by linarith
    then have "2 ^ 52 < \<bar>float64_of_int (sint now - float64_of_int (uint ts))\<bar>"
      by (rule float64_of_int_magnitude)
    moreover have "2 ^ 52 < \<bar>sint now - uint ts\<bar>"
      using False assms unfolding p52 p53 by linarith
    ultimately show ?thesis
      using assms unfolding float64_distance_exceeds_def n t p52 by linarith
  qed
qed

subsection \<open>The legacy verifier Authenticate\<close>

lemma legacy_timeout_check:
  "(Authenticate cr node now nowNano msg = Inl AuthTimeout)
     = (8 + 32 + 64 \<le> length msg \<and> 3 < sint (now - Uint64 (take 8 msg)))"
  by (simp add: Authenticate_def Let_def word_sless_alt not_less)

text \<open>
  Claim C8. For every legacy message of at least 8 + 32 + 64 bytes, \<^verbatim>\<open>Authenticate\<close> returns
  the timeout error exactly when \<open>now - ts > 3\<close>, the difference and the comparison being
  those of \<^verbatim>\<open>int64\<close> as the source computes them: a timestamp 4 seconds old fails with the
  timeout error and one exactly 3 seconds old passes the timeout check. Where the difference
  of the Unix time \<open>now\<close> and the unsigned timestamp fits an \<^verbatim>\<open>int64\<close>, the condition is the one
  on the numbers themselves.
\<close>

theorem Authenticate_timeout:
  assumes "8 + 32 + 64 \<le> length msg"
  shows "((Authenticate cr node now nowNano msg = Inl AuthTimeout)
            = (3 <s now - Uint64 (take 8 msg)))
         \<and> (Uint64 (take 8 msg) = now - 4
              \<longrightarrow> Authenticate cr node now nowNano msg = Inl AuthTimeout)
         \<and> (Uint64 (take 8 msg) = now - 3
              \<longrightarrow> Authenticate cr node now nowNano msg \<noteq> Inl AuthTimeout)
         \<and> (- (2 ^ 63) \<le> sint now - uint (Uint64 (take 8 msg))
              \<and> sint now - uint (Uint64 (take 8 msg)) < 2 ^ 63
              \<longrightarrow> (Authenticate cr node now nowNano msg = Inl AuthTimeout)
                    = (3 < sint now - uint (Uint64 (take 8 msg))))"
proof -
  have a: "(Authenticate cr node now nowNano msg = Inl AuthTimeout)
            = (3 < sint (now - Uint64 (take 8 msg)))"
    using assms by (simp add: legacy_timeout_check)
  have four: "now - (now - 4) = (4 :: u64)" and three: "now - (now - 3) = (3 :: u64)"
    by simp_all
  show ?thesis
    using a four three by (auto simp add: word_sless_alt sint_sub_in_range)
qed

text \<open>Messages built by the example node 4 and 3 seconds before they are verified.\<close>

theorem Authenticate_timeout_witness:
  "8 + 32 + 64 \<le> length (BuildLegacyAuthenticationMessage example_crypto example_booted
                            (1700000000 - 4))
   \<and> Uint64 (take 8 (BuildLegacyAuthenticationMessage example_crypto example_booted
                            (1700000000 - 4))) = 1700000000 - 4
   \<and> Authenticate example_crypto example_node 1700000000 1700000000000000000
        (BuildLegacyAuthenticationMessage example_crypto example_booted (1700000000 - 4))
       = Inl AuthTimeout
   \<and> 8 + 32 + 64 \<le> length (BuildLegacyAuthenticationMessage example_crypto example_booted
                            (1700000000 - 3))
   \<and> Uint64 (take 8 (BuildLegacyAuthenticationMessage example_crypto example_booted
                            (1700000000 - 3))) = 1700000000 - 3
   \<and> Authenticate example_crypto example_node 1700000000 1700000000000000000
        (BuildLegacyAuthenticationMessage example_crypto example_booted (1700000000 - 3))
       \<noteq> Inl AuthTimeout"
proof -
  define m4 where
    "m4 = BuildLegacyAuthenticationMessage example_crypto example_booted (1700000000 - 4)"
  define m3 where
    "m3 = BuildLegacyAuthenticationMessage example_crypto example_booted (1700000000 - 3)"
  have l4: "8 + 32 + 64 \<le> length m4" and l3: "8 + 32 + 64 \<le> length m3"
    unfolding m4_def m3_def by code_simp+
  have t4: "Uint64 (take 8 m4) = 1700000000 - 4" and t3: "Uint64 (take 8 m3) = 1700000000 - 3"
    unfolding m4_def m3_def by code_simp+
  have a: "Authenticate example_crypto example_node 1700000000 1700000000000000000 m4
             = Inl AuthTimeout"
    using Authenticate_timeout [OF l4, of example_crypto example_node 1700000000
        1700000000000000000] t4
    by blast
  have b: "Authenticate example_crypto example_node 1700000000 1700000000000000000 m3
             \<noteq> Inl AuthTimeout"
    using Authenticate_timeout [OF l3, of example_crypto example_node 1700000000
        1700000000000000000] t3
    by blast
  show ?thesis
    using l4 l3 t4 t3 a b unfolding m4_def m3_def by blast
qed

subsection \<open>The new-handshake verifier AuthenticateAs\<close>

lemma AuthenticateAs_cases:
  "AuthenticateAs cr node now recipientId msg timeoutSec =
     (if length msg \<noteq> 137 then Inl AuthMalformed
      else if auth_timed_out now msg timeoutSec then Inl AuthTimeout
      else if take 32 (drop 8 msg) \<noteq> recipientId then Inl AuthWrongRecipient
      else if message_peer_id cr node msg = recipientId then Inl AuthSelfPeer
      else if \<not> signature_valid cr msg then Inl AuthBadSignature
      else Inr \<lparr>PeerId = message_peer_id cr node msg, tok_Timestamp = Uint64 (take 8 msg),
                IsRelayer = (msg ! 72 = 1), Data = msg\<rparr>)"
  by (simp add: AuthenticateAs_def Let_def auth_timed_out_def message_peer_id_def
      signature_valid_def signerOf_def)

lemma auth_timed_out_exact:
  assumes "0 \<le> sint now" and "sint now < 2 ^ 52" and "sint timeoutSec \<le> 2 ^ 52"
  shows "auth_timed_out now msg timeoutSec
           = (0 < sint timeoutSec
              \<and> sint timeoutSec < \<bar>sint now - uint (Uint64 (take 8 msg))\<bar>)"
proof (cases "0 < sint timeoutSec")
  case True
  then show ?thesis
    using float64_distance_exact [OF assms(1) assms(2) True assms(3)]
    by (simp add: auth_timed_out_def word_sless_alt)
next
  case False
  then show ?thesis
    by (simp add: auth_timed_out_def word_sless_alt)
qed

text \<open>
  Claim C7. \<^verbatim>\<open>AuthenticateAs\<close> returns an error and no token under exactly these conditions,
  checked in this order: the length is not 137 bytes (malformed); \<open>timeoutSec > 0\<close> and
  \<open>|now - ts| > timeoutSec\<close> (timeout); the 32-byte recipient field differs from the expected
  recipient id (wrong recipient); the peer id derived from the signer key in the message
  equals the recipient id (self peer); the 64-byte signature fails verification against
  the hash of the first 73 bytes (bad signature); otherwise it returns a token. The
  timeout comparison is the \<^verbatim>\<open>float64\<close> one of the source, which for a clock and a timeout of
  at most \<open>2 ^ 52\<close> seconds is the comparison of the numbers themselves, whatever the
  timestamp.
\<close>

theorem AuthenticateAs_error_order:
  "((AuthenticateAs cr node now recipientId msg timeoutSec = Inl AuthMalformed)
      = (length msg \<noteq> 137))
   \<and> ((AuthenticateAs cr node now recipientId msg timeoutSec = Inl AuthTimeout)
      = (length msg = 137 \<and> auth_timed_out now msg timeoutSec))
   \<and> ((AuthenticateAs cr node now recipientId msg timeoutSec = Inl AuthWrongRecipient)
      = (length msg = 137 \<and> \<not> auth_timed_out now msg timeoutSec
         \<and> take 32 (drop 8 msg) \<noteq> recipientId))
   \<and> ((AuthenticateAs cr node now recipientId msg timeoutSec = Inl AuthSelfPeer)
      = (length msg = 137 \<and> \<not> auth_timed_out now msg timeoutSec
         \<and> take 32 (drop 8 msg) = recipientId \<and> message_peer_id cr node msg = recipientId))
   \<and> ((AuthenticateAs cr node now recipientId msg timeoutSec = Inl AuthBadSignature)
      = (length msg = 137 \<and> \<not> auth_timed_out now msg timeoutSec
         \<and> take 32 (drop 8 msg) = recipientId \<and> message_peer_id cr node msg \<noteq> recipientId
         \<and> \<not> signature_valid cr msg))
   \<and> ((\<exists>token. AuthenticateAs cr node now recipientId msg timeoutSec = Inr token)
      = (length msg = 137 \<and> \<not> auth_timed_out now msg timeoutSec
         \<and> take 32 (drop 8 msg) = recipientId \<and> message_peer_id cr node msg \<noteq> recipientId
         \<and> signature_valid cr msg))
   \<and> AuthenticateAs cr node now recipientId msg timeoutSec \<noteq> Inl AuthSignerMismatch
   \<and> (0 \<le> sint now \<and> sint now < 2 ^ 52 \<and> sint timeoutSec \<le> 2 ^ 52 \<longrightarrow>
        auth_timed_out now msg timeoutSec
          = (0 < sint timeoutSec
             \<and> sint timeoutSec < \<bar>sint now - uint (Uint64 (take 8 msg))\<bar>))"
proof -
  have t: "0 \<le> sint now \<and> sint now < 2 ^ 52 \<and> sint timeoutSec \<le> 2 ^ 52 \<longrightarrow>
        auth_timed_out now msg timeoutSec
          = (0 < sint timeoutSec
             \<and> sint timeoutSec < \<bar>sint now - uint (Uint64 (take 8 msg))\<bar>)"
    using auth_timed_out_exact [of now timeoutSec msg] by blast
  show ?thesis
    unfolding AuthenticateAs_cases using t by simp
qed

text \<open>A message built 1000 seconds before it is verified: it times out under a timeout of
  10 seconds, and with the timeout disabled it is refused by a node that is not its
  recipient.\<close>

theorem AuthenticateAs_error_order_witness:
  "0 \<le> sint (1700000000 :: i64) \<and> sint (1700000000 :: i64) < 2 ^ 52
   \<and> sint (10 :: i64) \<le> 2 ^ 52
   \<and> AuthenticateAs example_crypto example_booted 1700000000 (replicate 32 2)
         (BuildAuthenticationMessage example_crypto example_booted 1699999000 (replicate 32 2)) 10
       = Inl AuthTimeout
   \<and> AuthenticateAs example_crypto example_booted 1700000000 (replicate 32 3)
         (BuildAuthenticationMessage example_crypto example_booted 1699999000 (replicate 32 2)) 0
       = Inl AuthWrongRecipient"
proof -
  define msg where
    "msg = BuildAuthenticationMessage example_crypto example_booted 1699999000 (replicate 32 2)"
  have n: "0 \<le> sint (1700000000 :: i64)" "sint (1700000000 :: i64) < 2 ^ 52"
    "sint (10 :: i64) \<le> 2 ^ 52"
    by simp_all
  have len: "length msg = 137"
    unfolding msg_def by code_simp
  have ts: "uint (Uint64 (take 8 msg)) = 1699999000"
    unfolding msg_def by code_simp
  have rc: "take 32 (drop 8 msg) \<noteq> replicate 32 3"
    unfolding msg_def by code_simp
  have z: "\<not> auth_timed_out 1700000000 msg 0"
    by (simp add: auth_timed_out_def)
  have a: "AuthenticateAs example_crypto example_booted 1700000000 (replicate 32 2) msg 10
             = Inl AuthTimeout"
    using AuthenticateAs_error_order [of example_crypto example_booted 1700000000
        "replicate 32 2" msg 10] n len ts
    by simp
  have b: "AuthenticateAs example_crypto example_booted 1700000000 (replicate 32 3) msg 0
             = Inl AuthWrongRecipient"
    using AuthenticateAs_error_order [of example_crypto example_booted 1700000000
        "replicate 32 3" msg 0] len rc z
    by simp
  show ?thesis
    using n a b unfolding msg_def by blast
qed

subsection \<open>The handshake round trip\<close>

lemma loadNodeConfig_signer:
  "PublicSpendKey (node_Signer (loadNodeConfig cr node))
     = Key_Public cr (PrivateSpendKey (node_Signer (loadNodeConfig cr node)))"
  "PublicViewKey (node_Signer (loadNodeConfig cr node))
     = Key_Public cr (Key_DeterministicHashDerive cr
         (PublicSpendKey (node_Signer (loadNodeConfig cr node))))"
  "isRelayer (loadNodeConfig cr node) = custom_P2P_Relayer (custom node)"
  "networkId (loadNodeConfig cr node) = networkId node"
  by (simp_all add: loadNodeConfig_def Let_def)

lemma handshake_layout:
  assumes "length ts = 8" and "length r = 32" and "length p = 32" and "length sg = 64"
  shows "length (ts @ r @ p @ [f] @ sg) = 137"
    and "take 8 (ts @ r @ p @ [f] @ sg) = ts"
    and "take 32 (drop 8 (ts @ r @ p @ [f] @ sg)) = r"
    and "take 32 (drop 40 (ts @ r @ p @ [f] @ sg)) = p"
    and "(ts @ r @ p @ [f] @ sg) ! 72 = f"
    and "take 73 (ts @ r @ p @ [f] @ sg) = ts @ r @ p @ [f]"
    and "take 64 (drop 73 (ts @ r @ p @ [f] @ sg)) = sg"
  using assms by (simp_all add: nth_append)

text \<open>
  Claim C6. For a node whose signer comes from \<^verbatim>\<open>loadNodeConfig\<close> and whose own id is the
  hash of that signer for the network, and for every recipient id \<open>R\<close> other than the node's
  own id: verifying the node's freshly built handshake for \<open>R\<close>, with the timeout disabled or
  satisfied, succeeds and returns a token whose \<^verbatim>\<open>PeerId\<close> is the node's own id, whose
  \<^verbatim>\<open>IsRelayer\<close> is the node's relayer flag and whose \<^verbatim>\<open>Timestamp\<close> is the build-time Unix
  seconds.
\<close>

theorem handshake_round_trip:
  assumes sound: "crypto_sound cr"
    and booted: "node = loadNodeConfig cr node0"
    and own: "node_IdForNetwork node = own_IdForNetwork cr node"
    and len: "length recipientId = 32"
    and other: "recipientId \<noteq> node_IdForNetwork node"
    and intime: "\<not> auth_timed_out verifyNow
                   (BuildAuthenticationMessage cr node buildNow recipientId) timeoutSec"
  shows "AuthenticateAs cr node verifyNow recipientId
           (BuildAuthenticationMessage cr node buildNow recipientId) timeoutSec
         = Inr \<lparr>PeerId = node_IdForNetwork node, tok_Timestamp = buildNow,
                IsRelayer = isRelayer node,
                Data = BuildAuthenticationMessage cr node buildNow recipientId\<rparr>"
proof -
  define priv where "priv = PrivateSpendKey (node_Signer node)"
  define pub where "pub = PublicSpendKey (node_Signer node)"
  define flag :: byte where "flag = (if isRelayer node then 1 else 0)"
  define data where "data = PutUint64 buildNow @ recipientId @ pub @ [flag]"
  define sg where "sg = Key_Sign cr priv (Blake3Hash cr data)"
  define msg where "msg = BuildAuthenticationMessage cr node buildNow recipientId"
  have pub_priv: "pub = Key_Public cr priv"
    unfolding pub_def priv_def booted by (rule loadNodeConfig_signer(1))
  have view: "PublicViewKey (node_Signer node)
                = Key_Public cr (Key_DeterministicHashDerive cr pub)"
    unfolding pub_def booted by (rule loadNodeConfig_signer(2))
  have lp: "length pub = 32"
    using sound by (simp add: pub_priv crypto_sound_def)
  have ls: "length sg = 64"
    using sound by (simp add: sg_def crypto_sound_def)
  have m: "msg = PutUint64 buildNow @ recipientId @ pub @ [flag] @ sg"
    by (simp add: msg_def BuildAuthenticationMessage_def Let_def data_def sg_def pub_def
        priv_def flag_def)
  note lay = handshake_layout [OF length_PutUint64 len lp ls, of buildNow flag, folded m]
  have d: "take 73 msg = data"
    using lay(6) by (simp add: data_def)
  have ts: "Uint64 (take 8 msg) = buildNow"
    by (simp add: lay(2) Uint64_PutUint64_exact)
  have hash_eq: "Address_Hash cr (signerOf cr pub) = Address_Hash cr (node_Signer node)"
  proof -
    have "PublicSpendKey (signerOf cr pub) = PublicSpendKey (node_Signer node)
          \<and> PublicViewKey (signerOf cr pub) = PublicViewKey (node_Signer node)"
      by (simp add: signerOf_def view) (simp add: pub_def)
    then show ?thesis
      using sound unfolding crypto_sound_def by blast
  qed
  have peer: "message_peer_id cr node msg = node_IdForNetwork node"
    by (simp add: message_peer_id_def lay(4) hash_eq own own_IdForNetwork_def)
  have valid: "signature_valid cr msg"
    using sound by (simp add: signature_valid_def lay(4) lay(7) d sg_def pub_priv crypto_sound_def)
  have rel: "(msg ! 72 = 1) = isRelayer node"
    by (simp add: lay(5) flag_def)
  have "AuthenticateAs cr node verifyNow recipientId msg timeoutSec
         = Inr \<lparr>PeerId = node_IdForNetwork node, tok_Timestamp = buildNow,
                IsRelayer = isRelayer node, Data = msg\<rparr>"
    unfolding AuthenticateAs_cases
    using intime other by (simp add: lay(1) lay(3) peer valid rel ts msg_def [symmetric])
  then show ?thesis
    by (simp add: msg_def)
qed

text \<open>The example node's handshake for recipient \<open>02...02\<close>, verified 5 seconds after it
  was built under a timeout of 10 seconds.\<close>

lemma example_crypto_sound: "crypto_sound example_crypto"
  by (auto simp add: crypto_sound_def example_crypto_def min_def)

lemma example_booted_loaded: "example_booted = loadNodeConfig example_crypto example_booted"
  by (simp add: example_booted_def loadNodeConfig_def Let_def)

lemma example_booted_own:
  "node_IdForNetwork example_booted = own_IdForNetwork example_crypto example_booted"
  by (simp add: example_booted_def own_IdForNetwork_def loadNodeConfig_def Let_def)

theorem handshake_round_trip_witness:
  "crypto_sound example_crypto
   \<and> example_booted = loadNodeConfig example_crypto example_booted
   \<and> node_IdForNetwork example_booted = own_IdForNetwork example_crypto example_booted
   \<and> length (replicate 32 (2 :: byte)) = 32
   \<and> replicate 32 2 \<noteq> node_IdForNetwork example_booted
   \<and> \<not> auth_timed_out 1700000005
         (BuildAuthenticationMessage example_crypto example_booted 1700000000 (replicate 32 2)) 10
   \<and> AuthenticateAs example_crypto example_booted 1700000005 (replicate 32 2)
         (BuildAuthenticationMessage example_crypto example_booted 1700000000 (replicate 32 2)) 10
       = Inr \<lparr>PeerId = replicate 32 8, tok_Timestamp = 1700000000, IsRelayer = True,
              Data = BuildAuthenticationMessage example_crypto example_booted 1700000000
                       (replicate 32 2)\<rparr>"
proof -
  have l: "length (replicate 32 (2 :: byte)) = 32"
    by simp
  have d: "replicate 32 2 \<noteq> node_IdForNetwork example_booted"
    by code_simp
  have t: "\<not> auth_timed_out 1700000005
         (BuildAuthenticationMessage example_crypto example_booted 1700000000 (replicate 32 2)) 10"
    by code_simp
  have i: "node_IdForNetwork example_booted = replicate 32 8"
    by code_simp
  have r: "isRelayer example_booted = True"
    by code_simp
  have "AuthenticateAs example_crypto example_booted 1700000005 (replicate 32 2)
         (BuildAuthenticationMessage example_crypto example_booted 1700000000 (replicate 32 2)) 10
       = Inr \<lparr>PeerId = replicate 32 8, tok_Timestamp = 1700000000, IsRelayer = True,
              Data = BuildAuthenticationMessage example_crypto example_booted 1700000000
                       (replicate 32 2)\<rparr>"
    using handshake_round_trip [OF example_crypto_sound example_booted_loaded
        example_booted_own l d t]
    by (simp only: i r)
  then show ?thesis
    using example_crypto_sound example_booted_loaded example_booted_own l d t by blast
qed

subsection \<open>Future-dated legacy timestamps\<close>

text \<open>
  Claim C10, as stated, fails: the legacy verifier does not accept every timestamp at or
  after \<open>now - 3\<close>. The eight bytes \<open>0xff\<close> are the unsigned timestamp \<open>2 ^ 64 - 1\<close>, far
  in the future of the Unix time 1700000000; \<^verbatim>\<open>int64(ts)\<close> reads them as \<open>-1\<close>, the difference
  is 1700000001 and the message is rejected with the timeout error.
\<close>

theorem Authenticate_far_future_counterexample:
  "8 + 32 + 64 \<le> length example_far_future_message
   \<and> uint (Uint64 (take 8 example_far_future_message)) = 18446744073709551615
   \<and> sint (1700000000 :: i64) - 3 \<le> uint (Uint64 (take 8 example_far_future_message))
   \<and> Authenticate example_crypto example_booted 1700000000 1700000000000000000
        example_far_future_message = Inl AuthTimeout"
  by code_simp

text \<open>
  Claim C10, amended. For a clock at or after the Unix epoch, the legacy \<^verbatim>\<open>Authenticate\<close>
  accepts future-dated timestamps up to \<open>2 ^ 63\<close> seconds ahead: for every well-formed
  legacy message whose unsigned 8-byte timestamp \<open>ts\<close> has \<open>now - 3 \<le> ts \<le> now + 2 ^ 63\<close>
  the timeout check passes. A timestamp more than 3 seconds in the past is rejected, and
  so is (for \<open>now \<ge> 3\<close>) one more than \<open>2 ^ 63\<close> seconds ahead, which \<^verbatim>\<open>int64(ts)\<close> turns into
  a time in the past. The new-handshake \<^verbatim>\<open>AuthenticateAs\<close>, given a positive timeout (of at
  most \<open>2 ^ 52\<close> seconds, on a clock below \<open>2 ^ 52\<close>), bounds \<open>|now - ts|\<close> in both directions.
\<close>

theorem Authenticate_future_dated:
  assumes "8 + 32 + 64 \<le> length msg" and "0 \<le> sint now"
  shows "(sint now - 3 \<le> uint (Uint64 (take 8 msg))
            \<and> uint (Uint64 (take 8 msg)) \<le> sint now + 2 ^ 63
            \<longrightarrow> Authenticate cr node now nowNano msg \<noteq> Inl AuthTimeout)
         \<and> (3 \<le> sint now \<and> sint now + 2 ^ 63 < uint (Uint64 (take 8 msg))
              \<longrightarrow> Authenticate cr node now nowNano msg = Inl AuthTimeout)
         \<and> (uint (Uint64 (take 8 msg)) < sint now - 3
              \<longrightarrow> Authenticate cr node now nowNano msg = Inl AuthTimeout)
         \<and> (length msg' = 137 \<and> sint now < 2 ^ 52 \<and> 0 < sint timeoutSec
              \<and> sint timeoutSec \<le> 2 ^ 52
              \<longrightarrow> (AuthenticateAs cr node now recipientId msg' timeoutSec = Inl AuthTimeout)
                    = (sint timeoutSec < \<bar>sint now - uint (Uint64 (take 8 msg'))\<bar>))"
proof -
  define ts where "ts = Uint64 (take 8 msg)"
  have a: "(Authenticate cr node now nowNano msg = Inl AuthTimeout) = (3 < sint (now - ts))"
    using assms(1) by (simp add: legacy_timeout_check ts_def)
  have u: "0 \<le> uint ts" "uint ts < 2 ^ 64"
    using uint_bounded [of ts] by simp_all
  have n: "sint now < 2 ^ 63"
    using sint_less [of now] by simp
  have p63: "(2::int) ^ 63 = 9223372036854775808"
    and p64: "(2::int) ^ 64 = 18446744073709551616"
    by simp_all
  have near: "sint now - 3 \<le> uint ts \<Longrightarrow> uint ts \<le> sint now + 2 ^ 63
      \<Longrightarrow> \<not> 3 < sint (now - ts)"
  proof -
    assume h: "sint now - 3 \<le> uint ts" "uint ts \<le> sint now + 2 ^ 63"
    have lo: "- (2 ^ 63) \<le> sint now - uint ts" and hi: "sint now - uint ts < 2 ^ 63"
      using h n u unfolding p63 by linarith+
    have "sint (now - ts) = sint now - uint ts"
      using lo hi by (rule sint_sub_in_range)
    then show ?thesis
      using h by linarith
  qed
  have far: "3 \<le> sint now \<Longrightarrow> sint now + 2 ^ 63 < uint ts \<Longrightarrow> 3 < sint (now - ts)"
  proof -
    assume h: "3 \<le> sint now" "sint now + 2 ^ 63 < uint ts"
    have lo: "sint now - uint ts < - (2 ^ 63)"
      using h unfolding p63 by linarith
    have "sint (now - ts) = sint now - uint ts + 2 ^ 64"
      using lo assms(2) by (rule sint_sub_wrapped)
    then show ?thesis
      using h u unfolding p63 p64 by linarith
  qed
  have past: "uint ts < sint now - 3 \<Longrightarrow> 3 < sint (now - ts)"
  proof -
    assume h: "uint ts < sint now - 3"
    have lo: "- (2 ^ 63) \<le> sint now - uint ts" and hi: "sint now - uint ts < 2 ^ 63"
      using h n u unfolding p63 by linarith+
    have "sint (now - ts) = sint now - uint ts"
      using lo hi by (rule sint_sub_in_range)
    then show ?thesis
      using h by linarith
  qed
  have new: "length msg' = 137 \<Longrightarrow> sint now < 2 ^ 52 \<Longrightarrow> 0 < sint timeoutSec
      \<Longrightarrow> sint timeoutSec \<le> 2 ^ 52
      \<Longrightarrow> (AuthenticateAs cr node now recipientId msg' timeoutSec = Inl AuthTimeout)
            = (sint timeoutSec < \<bar>sint now - uint (Uint64 (take 8 msg'))\<bar>)"
    using auth_timed_out_exact [OF assms(2), of timeoutSec msg']
    by (simp add: AuthenticateAs_cases)
  show ?thesis
    using a near far past new unfolding ts_def by blast
qed

text \<open>A timestamp one million seconds ahead passes the legacy timeout check; the same
  timestamp in a new handshake times out under a timeout of 10 seconds.\<close>

theorem Authenticate_future_dated_witness:
  "8 + 32 + 64 \<le> length example_future_message
   \<and> 0 \<le> sint (1700000000 :: i64)
   \<and> sint (1700000000 :: i64) - 3 \<le> uint (Uint64 (take 8 example_future_message))
   \<and> uint (Uint64 (take 8 example_future_message)) \<le> sint (1700000000 :: i64) + 2 ^ 63
   \<and> Authenticate example_crypto example_booted 1700000000 1700000000000000000
         example_future_message \<noteq> Inl AuthTimeout
   \<and> length (BuildAuthenticationMessage example_crypto example_booted 1701000000
                (replicate 32 2)) = 137
   \<and> AuthenticateAs example_crypto example_booted 1700000000 (replicate 32 2)
         (BuildAuthenticationMessage example_crypto example_booted 1701000000 (replicate 32 2))
         10 = Inl AuthTimeout"
proof -
  define m where
    "m = BuildAuthenticationMessage example_crypto example_booted 1701000000 (replicate 32 2)"
  have l: "8 + 32 + 64 \<le> length example_future_message"
    by code_simp
  have n: "0 \<le> sint (1700000000 :: i64)" "sint (1700000000 :: i64) < 2 ^ 52"
    "0 < sint (10 :: i64)" "sint (10 :: i64) \<le> 2 ^ 52"
    by simp_all
  have ts: "uint (Uint64 (take 8 example_future_message)) = 1701000000"
    by code_simp
  have lm: "length m = 137"
    unfolding m_def by code_simp
  have tm: "uint (Uint64 (take 8 m)) = 1701000000"
    unfolding m_def by code_simp
  note inst = Authenticate_future_dated [OF l n(1), of example_crypto example_booted
      1700000000000000000 m 10 "replicate 32 2"]
  have a: "Authenticate example_crypto example_booted 1700000000 1700000000000000000
         example_future_message \<noteq> Inl AuthTimeout"
    using inst ts by simp
  have b: "AuthenticateAs example_crypto example_booted 1700000000 (replicate 32 2) m 10
         = Inl AuthTimeout"
    using inst lm tm n by simp
  show ?thesis
    using l n(1) ts lm a b unfolding m_def by simp
qed

subsection \<open>nodeSequenceWithoutState\<close>

lemma less_CNode_le: "less_CNode a b \<Longrightarrow> canonical_le a b"
  by (auto simp add: less_CNode_def canonical_le_def split: if_splits)

lemma not_less_CNode_le: "\<not> less_CNode a b \<Longrightarrow> canonical_le b a"
  by (auto simp add: less_CNode_def canonical_le_def split: if_splits)

lemma canonical_le_trans: "canonical_le a b \<Longrightarrow> canonical_le b c \<Longrightarrow> canonical_le a c"
  by (auto simp add: canonical_le_def)

lemma set_insert_by: "set (insert_by lt x ys) = insert x (set ys)"
  by (induction ys) auto

lemma sorted_insert_by:
  "sorted_wrt canonical_le ys \<Longrightarrow> sorted_wrt canonical_le (insert_by less_CNode x ys)"
proof (induction ys)
  case Nil
  then show ?case by simp
next
  case (Cons y ys)
  show ?case
  proof (cases "less_CNode x y")
    case True
    then have xy: "canonical_le x y"
      by (rule less_CNode_le)
    have "\<forall>z \<in> set ys. canonical_le x z"
      using Cons.prems xy by (auto intro: canonical_le_trans)
    then show ?thesis
      using True xy Cons.prems by simp
  next
    case False
    then have yx: "canonical_le y x"
      by (rule not_less_CNode_le)
    have "sorted_wrt canonical_le (insert_by less_CNode x ys)"
      using Cons by simp
    then show ?thesis
      using False yx Cons.prems by (simp add: set_insert_by)
  qed
qed

lemma sorted_sort_Slice: "sorted_wrt canonical_le (sort_Slice xs less_CNode)"
  by (induction xs) (simp_all add: sorted_insert_by)

lemma length_assignConsensusIndex: "length (assignConsensusIndex i xs) = length xs"
  by (induction xs arbitrary: i) simp_all

lemma assignConsensusIndex_keeps:
  "map Timestamp (assignConsensusIndex i xs) = map Timestamp xs"
  "map IdForNetwork (assignConsensusIndex i xs) = map IdForNetwork xs"
  "map State (assignConsensusIndex i xs) = map State xs"
  by (induction xs arbitrary: i) simp_all

lemma canonical_le_keys:
  "sorted_wrt canonical_le xs
     = sorted_wrt (\<lambda>p q. fst p < fst q \<or> (fst p = fst q \<and> Hash_String (snd p) \<le> Hash_String (snd q)))
         (zip (map Timestamp xs) (map IdForNetwork xs))"
proof -
  have "zip (map Timestamp xs) (map IdForNetwork xs) = map (\<lambda>c. (Timestamp c, IdForNetwork c)) xs"
    by (induction xs) simp_all
  moreover have "canonical_le = (\<lambda>a b. Timestamp a < Timestamp b
      \<or> (Timestamp a = Timestamp b
          \<and> Hash_String (IdForNetwork a) \<le> Hash_String (IdForNetwork b)))"
    by (intro ext) (simp add: canonical_le_def)
  ultimately show ?thesis
    by (simp add: sorted_wrt_map)
qed

lemma sorted_assignConsensusIndex:
  "sorted_wrt canonical_le (assignConsensusIndex i xs) = sorted_wrt canonical_le xs"
  by (simp add: canonical_le_keys assignConsensusIndex_keeps)

lemma is_active_assigned [simp]: "is_active (cn\<lparr>ConsensusIndex := i\<rparr>) = is_active cn"
  by (simp add: is_active_def)

lemma assignConsensusIndex_positions:
  "map ConsensusIndex (assignConsensusIndex i xs)
     = map (\<lambda>k. i + int (length (filter is_active (take k (assignConsensusIndex i xs)))))
         [0..<length xs]"
proof (induction xs arbitrary: i)
  case Nil
  then show ?case by simp
next
  case (Cons c cs)
  show ?case
    by (simp add: map_upt_Suc Cons.IH [symmetric] is_active_def length_assignConsensusIndex
        del: upt_Suc) (simp add: Cons.IH length_assignConsensusIndex is_active_def)
qed

lemma assignConsensusIndex_active:
  "map ConsensusIndex (filter is_active (assignConsensusIndex i xs))
     = map (\<lambda>k. i + int k) [0..<length (filter is_active xs)]"
proof (induction xs arbitrary: i)
  case Nil
  then show ?case by simp
next
  case (Cons c cs)
  show ?case
  proof (cases "is_active c")
    case True
    then have "State c = NodeStateAccepted \<or> State c = NodeStatePledging"
      by (simp add: is_active_def)
    then show ?thesis
      using True by (simp add: Cons.IH map_upt_Suc add.assoc del: upt_Suc)
  next
    case False
    then have "\<not> (State c = NodeStateAccepted \<or> State c = NodeStatePledging)"
      by (simp add: is_active_def)
    then show ?thesis
      using False by (simp add: Cons.IH)
  qed
qed

lemma length_active_assigned:
  "length (filter is_active (assignConsensusIndex i xs)) = length (filter is_active xs)"
  by (induction xs arbitrary: i) simp_all

text \<open>
  Claim C5, as stated, fails in one part: the consensus index is not assigned only to
  Pledging and Accepted entries. The last loop writes the running index into every entry,
  so the removed node of the example, which follows one accepted node, carries the index
  1 and not the zero its fresh copy started with.
\<close>

theorem removed_node_indexed_counterexample:
  "length (nodeSequenceWithoutState example_removed 3 False) = 2
   \<and> State (nodeSequenceWithoutState example_removed 3 False ! 1) = NodeStateRemoved
   \<and> \<not> is_active (nodeSequenceWithoutState example_removed 3 False ! 1)
   \<and> ConsensusIndex (nodeSequenceWithoutState example_removed 3 False ! 1) = 1"
  by code_simp

text \<open>
  Claim C5, amended. For every threshold and \<open>acceptedOnly\<close> flag, the list produced by
  \<^verbatim>\<open>nodeSequenceWithoutState\<close> is sorted under the canonical order (timestamp ascending,
  ties broken by the hex-encoded id string ascending), and every entry receives as its
  consensus index the number of Pledging or Accepted entries before it: over the Pledging
  and Accepted entries the index is strictly monotonic and equals each entry's 0-based
  position among that subset, and an entry in another state does not advance it.
\<close>

theorem nodeSequenceWithoutState_sorted_indexed:
  "sorted_wrt canonical_le (nodeSequenceWithoutState node threshold acceptedOnly)
   \<and> map ConsensusIndex (nodeSequenceWithoutState node threshold acceptedOnly)
       = map (\<lambda>k. int (length (filter is_active
                  (take k (nodeSequenceWithoutState node threshold acceptedOnly)))))
           [0..<length (nodeSequenceWithoutState node threshold acceptedOnly)]
   \<and> map ConsensusIndex (filter is_active (nodeSequenceWithoutState node threshold acceptedOnly))
       = map int [0..<length (filter is_active
                                (nodeSequenceWithoutState node threshold acceptedOnly))]
   \<and> sorted_wrt (<)
        (map ConsensusIndex (filter is_active
           (nodeSequenceWithoutState node threshold acceptedOnly)))"
proof -
  define sorted where
    "sorted = sort_Slice (collectNodes acceptedOnly
        (map snd (filterLoop (allNodesSortedWithState node) threshold []))) less_CNode"
  have out: "nodeSequenceWithoutState node threshold acceptedOnly = assignConsensusIndex 0 sorted"
    by (simp add: nodeSequenceWithoutState_def sorted_def Let_def)
  have a: "sorted_wrt canonical_le (assignConsensusIndex 0 sorted)"
    by (simp add: sorted_assignConsensusIndex sorted_def sorted_sort_Slice)
  have b: "map ConsensusIndex (assignConsensusIndex 0 sorted)
       = map (\<lambda>k. int (length (filter is_active (take k (assignConsensusIndex 0 sorted)))))
           [0..<length (assignConsensusIndex 0 sorted)]"
    using assignConsensusIndex_positions [of 0 sorted]
    by (simp add: length_assignConsensusIndex)
  have c: "map ConsensusIndex (filter is_active (assignConsensusIndex 0 sorted))
       = map int [0..<length (filter is_active (assignConsensusIndex 0 sorted))]"
    using assignConsensusIndex_active [of 0 sorted] by (simp add: length_active_assigned)
  have d: "sorted_wrt (<) (map ConsensusIndex (filter is_active (assignConsensusIndex 0 sorted)))"
    unfolding c by (simp add: sorted_wrt_map)
  show ?thesis
    unfolding out using a b c d by blast
qed

subsection \<open>The order of the map iteration\<close>

lemma hexdigit_inj:
  assumes "i < 16" and "j < 16" and "hexdigit i = hexdigit j"
  shows "i = j"
proof -
  have "distinct ''0123456789abcdef''"
    by simp
  moreover have "i < length ''0123456789abcdef''" and "j < length ''0123456789abcdef''"
    using assms by simp_all
  ultimately show ?thesis
    using assms(3) unfolding hexdigit_def by (simp only: nth_eq_iff_index_eq)
qed

lemma hex_of_byte_inj:
  fixes b b' :: byte
  assumes "hexdigit (unat b div 16) = hexdigit (unat b' div 16)"
    and "hexdigit (unat b mod 16) = hexdigit (unat b' mod 16)"
  shows "b = b'"
proof -
  have lb: "unat b < 256" and lb': "unat b' < 256"
    using unsigned_less [of b] unsigned_less [of b'] by simp_all
  have d: "unat b div 16 = unat b' div 16"
    using lb lb' assms(1) by (intro hexdigit_inj) simp_all
  have m: "unat b mod 16 = unat b' mod 16"
    using assms(2) by (intro hexdigit_inj) simp_all
  have "unat b = unat b'"
    using d m by (metis div_mult_mod_eq)
  then show ?thesis
    by (rule unsigned_word_eqI)
qed

lemma Hash_String_Cons:
  "Hash_String (b # h) = hexdigit (unat b div 16) # hexdigit (unat b mod 16) # Hash_String h"
  by (simp add: Hash_String_def)

lemma Hash_String_inj: "Hash_String h = Hash_String h' \<Longrightarrow> h = h'"
proof (induction h arbitrary: h')
  case Nil
  then show ?case
    by (cases h') (simp_all add: Hash_String_Cons, simp add: Hash_String_def)
next
  case (Cons b h)
  show ?case
  proof (cases h')
    case Nil
    then show ?thesis
      using Cons.prems by (simp add: Hash_String_Cons) (simp add: Hash_String_def)
  next
    case (Cons b' t)
    then have "b = b'" and "Hash_String h = Hash_String t"
      using Cons.prems by (simp_all add: Hash_String_Cons hex_of_byte_inj)
    then show ?thesis
      using Cons Cons.IH by simp
  qed
qed

lemma less_CNode_irrefl: "\<not> less_CNode a a"
  by (simp add: less_CNode_def)

lemma less_CNode_trans: "less_CNode a b \<Longrightarrow> less_CNode b c \<Longrightarrow> less_CNode a c"
  by (auto simp add: less_CNode_def split: if_splits)

lemma less_CNode_total:
  "IdForNetwork a \<noteq> IdForNetwork b \<Longrightarrow> less_CNode a b \<or> less_CNode b a"
proof -
  assume "IdForNetwork a \<noteq> IdForNetwork b"
  then have "Hash_String (IdForNetwork a) \<noteq> Hash_String (IdForNetwork b)"
    using Hash_String_inj by blast
  then have "Hash_String (IdForNetwork a) < Hash_String (IdForNetwork b)
      \<or> Hash_String (IdForNetwork b) < Hash_String (IdForNetwork a)"
    by (rule linorder_neqE) simp_all
  then show ?thesis
    by (auto simp add: less_CNode_def)
qed

lemma strictly_sorted_insert_by:
  assumes "sorted_wrt less_CNode ys"
    and "\<forall>y \<in> set ys. IdForNetwork x \<noteq> IdForNetwork y"
  shows "sorted_wrt less_CNode (insert_by less_CNode x ys)"
  using assms
proof (induction ys)
  case Nil
  then show ?case by simp
next
  case (Cons y ys)
  show ?case
  proof (cases "less_CNode x y")
    case True
    then have "\<forall>z \<in> set ys. less_CNode x z"
      using Cons.prems(1) by (auto intro: less_CNode_trans)
    then show ?thesis
      using True Cons.prems(1) by simp
  next
    case False
    then have "less_CNode y x"
      using Cons.prems(2) less_CNode_total [of x y] by simp
    then show ?thesis
      using False Cons by (simp add: set_insert_by)
  qed
qed

lemma set_sort_Slice: "set (sort_Slice xs lt) = set xs"
  by (induction xs) (simp_all add: set_insert_by)

lemma strictly_sorted_sort_Slice:
  "distinct (map IdForNetwork xs) \<Longrightarrow> sorted_wrt less_CNode (sort_Slice xs less_CNode)"
proof (induction xs)
  case Nil
  then show ?case by simp
next
  case (Cons x xs)
  have "\<forall>y \<in> set (sort_Slice xs less_CNode). IdForNetwork x \<noteq> IdForNetwork y"
    using Cons.prems by (auto simp add: set_sort_Slice)
  then show ?case
    using Cons by (simp add: strictly_sorted_insert_by)
qed

lemma strictly_sorted_unique:
  "sorted_wrt less_CNode xs \<Longrightarrow> sorted_wrt less_CNode ys \<Longrightarrow> set xs = set ys \<Longrightarrow> xs = ys"
proof (induction xs arbitrary: ys)
  case Nil
  then show ?case by simp
next
  case (Cons x xs)
  obtain y ys' where ys: "ys = y # ys'"
    using Cons.prems(3) by (cases ys) auto
  have xy: "x = y"
  proof (rule ccontr)
    assume ne: "x \<noteq> y"
    have "x \<in> set ys'"
      using Cons.prems(3) ne ys by auto
    then have a: "less_CNode y x"
      using Cons.prems(2) ys by simp
    have "y \<in> set xs"
      using Cons.prems(3) ne ys by auto
    then have "less_CNode x y"
      using Cons.prems(1) by simp
    then show False
      using a less_CNode_trans less_CNode_irrefl by blast
  qed
  have nx: "x \<notin> set xs" and ny: "y \<notin> set ys'"
    using Cons.prems(1) Cons.prems(2) ys less_CNode_irrefl by auto
  have "set xs = set ys'"
    using Cons.prems(3) ys xy nx ny by auto
  then have "xs = ys'"
    using Cons.IH [of ys'] Cons.prems(1) Cons.prems(2) ys by simp
  then show ?case
    using xy ys by simp
qed

text \<open>Sorting does not depend on the order in which the nodes are handed over.\<close>

lemma sort_Slice_order_independent:
  assumes "distinct (map IdForNetwork xs)" and "distinct (map IdForNetwork ys)"
    and "set xs = set ys"
  shows "sort_Slice xs less_CNode = sort_Slice ys less_CNode"
  using assms
  by (intro strictly_sorted_unique strictly_sorted_sort_Slice) (simp_all add: set_sort_Slice)

lemma map_store_keys:
  "map fst (map_store k v ps) = (if k \<in> set (map fst ps) then map fst ps else map fst ps @ [k])"
  by (induction ps) auto

lemma set_map_store:
  "distinct (map fst ps) \<Longrightarrow>
     set (map_store k v ps) = insert (k, v) {p \<in> set ps. fst p \<noteq> k}"
  by (induction ps) (auto simp add: rev_image_eqI)

lemma filterLoop_keyed:
  assumes "distinct (map fst fm)" and "\<forall>p \<in> set fm. IdForNetwork (snd p) = fst p"
  shows "distinct (map fst (filterLoop ns threshold fm))
         \<and> (\<forall>p \<in> set (filterLoop ns threshold fm). IdForNetwork (snd p) = fst p)"
  using assms
proof (induction ns arbitrary: fm)
  case Nil
  then show ?case by simp
next
  case (Cons n ns)
  have d: "distinct (map fst (map_store (IdForNetwork n) n fm))"
    using Cons.prems(1) by (simp add: map_store_keys)
  have k: "\<forall>p \<in> set (map_store (IdForNetwork n) n fm). IdForNetwork (snd p) = fst p"
    using Cons.prems by (auto simp add: set_map_store)
  show ?case
    using Cons.IH [OF d k] Cons.prems by simp
qed

lemma collectNodes_ids:
  "map IdForNetwork (collectNodes acceptedOnly ns)
     = map IdForNetwork (filter (\<lambda>n. \<not> acceptedOnly \<or> State n = NodeStateAccepted) ns)"
  by (induction ns) (auto simp add: copyCNode_def)

lemma set_collectNodes:
  "set (collectNodes acceptedOnly ns)
     = copyCNode ` {n \<in> set ns. \<not> acceptedOnly \<or> State n = NodeStateAccepted}"
  by (induction ns) auto

text \<open>
  Whatever the order \<open>enum\<close> in which the values of the map \<^verbatim>\<open>filter\<close> are visited, the
  sorted and indexed list is the one the model computes.
\<close>

lemma nodeSequenceWithoutState_any_order:
  assumes "set enum = set (map snd (filterLoop (allNodesSortedWithState node) threshold []))"
    and "distinct (map IdForNetwork enum)"
  shows "assignConsensusIndex 0 (sort_Slice (collectNodes acceptedOnly enum) less_CNode)
           = nodeSequenceWithoutState node threshold acceptedOnly"
proof -
  define fm where "fm = filterLoop (allNodesSortedWithState node) threshold []"
  have inv: "distinct (map fst fm) \<and> (\<forall>p \<in> set fm. IdForNetwork (snd p) = fst p)"
    unfolding fm_def by (rule filterLoop_keyed) simp_all
  have "map (IdForNetwork \<circ> snd) fm = map fst fm"
    using inv by simp
  then have d: "distinct (map IdForNetwork (map snd fm))"
    using inv by (simp only: map_map)
  have d1: "distinct (map IdForNetwork (collectNodes acceptedOnly enum))"
    using assms(2) by (simp add: collectNodes_ids distinct_map_filter)
  have d2: "distinct (map IdForNetwork (collectNodes acceptedOnly (map snd fm)))"
    using d by (simp only: collectNodes_ids distinct_map_filter)
  have s: "set (collectNodes acceptedOnly enum) = set (collectNodes acceptedOnly (map snd fm))"
    using assms(1) by (simp only: set_collectNodes fm_def)
  show ?thesis
    using sort_Slice_order_independent [OF d1 d2 s]
    by (simp add: nodeSequenceWithoutState_def fm_def Let_def)
qed

subsection \<open>The graph pusher and the done signal\<close>

lemma waitGraphTicker_append:
  "waitGraphTicker node (evs @ evs') = waitGraphTicker node evs @ waitGraphTicker node evs'"
proof (induction evs)
  case Nil
  then show ?case by simp
next
  case (Cons ev evs)
  then show ?case by (cases ev) simp_all
qed

lemma graph_pusher_keeps_sending:
  "sendGraphToConcensusNodes node nowNano (evs @ [DoneClosed, TickerFires t])
     = sendGraphToConcensusNodes node nowNano evs @ DoneWasClosed # sendGraphRound node t"
  by (simp add: sendGraphToConcensusNodes_def waitGraphTicker_append)

lemma waitOrDone_sees_done: "waitOrDone (DoneClosed # evs) = Some True"
  by simp

text \<open>
  Claim C9 says that the graph pusher terminates when the node-wide done signal fires and
  sends nothing afterwards. The loop of \<^verbatim>\<open>sendGraphToConcensusNodes\<close> never receives from
  \<^verbatim>\<open>node.done\<close> (the helper \<^verbatim>\<open>waitOrDone\<close> of the same file does): on the example node, when
  \<^verbatim>\<open>node.done\<close> is closed and the ticker fires once more, the loop sends a graph message
  to each of the four accepted nodes again.
\<close>

theorem graph_pusher_sends_after_done:
  "sendGraphToConcensusNodes example_node 2000 [DoneClosed, TickerFires 3000]
     = [SendGraphMessage (replicate 32 1), SendGraphMessage (replicate 32 2),
        SendGraphMessage (replicate 32 3), SendGraphMessage (replicate 32 4),
        DoneWasClosed,
        SendGraphMessage (replicate 32 1), SendGraphMessage (replicate 32 2),
        SendGraphMessage (replicate 32 3), SendGraphMessage (replicate 32 4)]"
  by code_simp

end
